theory Spec2Isabelle
  imports Complex_Main
begin

section \<open>JavaScript values\<close>

text \<open>
  The two libraries \<^verbatim>\<open>client/lib/categoryService.ts\<close> and
  \<^verbatim>\<open>client/lib/voiceService.ts\<close> are TypeScript, so at run time their
  arguments are arbitrary JavaScript values and both entry points test the shape of
  what they get.

  A number is \<^verbatim>\<open>NaN\<close>, an infinity, or a finite value. A finite value is
  carried as a rational: every double is one, and a decimal literal such as
  \<^verbatim>\<open>9999.99\<close> is carried as its exact value, which the double nearest to it
  stands for. The program only compares numbers with \<^verbatim>\<open>0\<close> and
  \<^verbatim>\<open>10000\<close>.
\<close>

datatype jsnum = NaN | NegInf | Fin rat | PosInf

text \<open>\<^verbatim>\<open>x > c\<close> and \<open>x < c\<close> for a finite constant \<open>c\<close>; every comparison with
  \<^verbatim>\<open>NaN\<close> is false.\<close>

fun num_gt :: "jsnum \<Rightarrow> rat \<Rightarrow> bool" where
  "num_gt NaN c = False"
| "num_gt NegInf c = False"
| "num_gt (Fin x) c = (c < x)"
| "num_gt PosInf c = True"

fun num_lt :: "jsnum \<Rightarrow> rat \<Rightarrow> bool" where
  "num_lt NaN c = False"
| "num_lt NegInf c = True"
| "num_lt (Fin x) c = (x < c)"
| "num_lt PosInf c = False"

fun isNaN :: "jsnum \<Rightarrow> bool" where
  "isNaN NaN = True"
| "isNaN _ = False"

text \<open>
  A value: \<open>JObj a d\<close> is an object whose properties \<^verbatim>\<open>amount\<close> and
  \<^verbatim>\<open>description\<close> read as \<open>a\<close> and \<open>d\<close> (\<open>JUndefined\<close> for a property that
  is absent); no other property of an object is ever read by the code below.
\<close>

datatype jsval =
    JUndefined
  | JNull
  | JBool bool
  | JNum jsnum
  | JStr string
  | JObj jsval jsval

datatype jstype = TUndefined | TObject | TBoolean | TNumber | TString

fun typeof :: "jsval \<Rightarrow> jstype" where
  "typeof JUndefined = TUndefined"
| "typeof JNull = TObject"
| "typeof (JBool _) = TBoolean"
| "typeof (JNum _) = TNumber"
| "typeof (JStr _) = TString"
| "typeof (JObj _ _) = TObject"

text \<open>\<^verbatim>\<open>!v\<close> is \<open>\<not> truthy v\<close>.\<close>

fun truthy :: "jsval \<Rightarrow> bool" where
  "truthy JUndefined = False"
| "truthy JNull = False"
| "truthy (JBool b) = b"
| "truthy (JNum NaN) = False"
| "truthy (JNum (Fin x)) = (x \<noteq> 0)"
| "truthy (JNum _) = True"
| "truthy (JStr s) = (s \<noteq> [])"
| "truthy (JObj _ _) = True"

text \<open>Property reads \<^verbatim>\<open>v.amount\<close> and \<^verbatim>\<open>v.description\<close> on a value that
  is neither \<^verbatim>\<open>null\<close> nor \<^verbatim>\<open>undefined\<close>: a primitive has neither
  property.\<close>

fun prop_amount :: "jsval \<Rightarrow> jsval" where
  "prop_amount (JObj a d) = a"
| "prop_amount _ = JUndefined"

fun prop_description :: "jsval \<Rightarrow> jsval" where
  "prop_description (JObj a d) = d"
| "prop_description _ = JUndefined"

section \<open>Strings\<close>

text \<open>
  A JavaScript string is a sequence of 16-bit code units. An input string of the model
  is a list of 8-bit characters: the strings whose code units are all below 256 (ASCII
  and Latin-1), a character being its code unit. On these the operations below are
  those of the language:
  \<^item> \<^verbatim>\<open>toLowerCase\<close> moves \<^verbatim>\<open>A\<close> to \<^verbatim>\<open>Z\<close> and the Latin-1 capitals
    \<^verbatim>\<open>U+00C0\<close> to \<^verbatim>\<open>U+00DE\<close>, the multiplication sign \<^verbatim>\<open>U+00D7\<close>
    apart, up by 32, and changes nothing else, so its result is such a string again;
  \<^item> white space, for \<^verbatim>\<open>trim\<close> and for \<^verbatim>\<open>\s\<close>, is tab, line feed,
    vertical tab, form feed, carriage return, space and the no-break space
    \<^verbatim>\<open>U+00A0\<close>;
  \<^item> \<^verbatim>\<open>toUpperCase\<close> can leave the range (\<^verbatim>\<open>U+00B5\<close> becomes
    \<^verbatim>\<open>U+039C\<close>, \<^verbatim>\<open>U+00FF\<close> becomes \<^verbatim>\<open>U+0178\<close>) and can give two
    code units (\<^verbatim>\<open>U+00DF\<close> becomes \<^verbatim>\<open>SS\<close>), so its result is a list of
    code units, which are natural numbers.
\<close>

definition units :: "string \<Rightarrow> nat list" where
  "units s = map of_char s"

definition toLowerChar :: "char \<Rightarrow> char" where
  "toLowerChar c =
     (let n = (of_char c :: nat)
      in if (65 \<le> n \<and> n \<le> 90) \<or> (192 \<le> n \<and> n \<le> 222 \<and> n \<noteq> 215)
         then char_of (n + 32) else c)"

definition toLowerCase :: "string \<Rightarrow> string" where
  "toLowerCase s = map toLowerChar s"

text \<open>The upper-case form of one character, as code units.\<close>

definition upperCaseOf :: "char \<Rightarrow> nat list" where
  "upperCaseOf c =
     (let n = (of_char c :: nat)
      in if 97 \<le> n \<and> n \<le> 122 then [n - 32]
         else if n = 181 then [924]
         else if n = 223 then [83, 83]
         else if 224 \<le> n \<and> n \<le> 254 \<and> n \<noteq> 247 then [n - 32]
         else if n = 255 then [376]
         else [n])"

definition toUpperCase :: "string \<Rightarrow> nat list" where
  "toUpperCase s = concat (map upperCaseOf s)"

definition isSpace :: "char \<Rightarrow> bool" where
  "isSpace c = (let n = (of_char c :: nat) in (9 \<le> n \<and> n \<le> 13) \<or> n = 32 \<or> n = 160)"

definition isDigit :: "char \<Rightarrow> bool" where
  "isDigit c = (let n = (of_char c :: nat) in 48 \<le> n \<and> n \<le> 57)"

definition trim :: "string \<Rightarrow> string" where
  "trim s = rev (dropWhile isSpace (rev (dropWhile isSpace s)))"

text \<open>\<^verbatim>\<open>s.startsWith(k)\<close> and \<^verbatim>\<open>s.includes(k)\<close>.\<close>

fun startsWith :: "string \<Rightarrow> string \<Rightarrow> bool" where
  "startsWith s [] = True"
| "startsWith [] (k # ks) = False"
| "startsWith (c # cs) (k # ks) = (c = k \<and> startsWith cs ks)"

fun includes_str :: "string \<Rightarrow> string \<Rightarrow> bool" where
  "includes_str [] k = (k = [])"
| "includes_str (c # cs) k = (startsWith (c # cs) k \<or> includes_str cs k)"

section \<open>The category classifier\<close>

text \<open>
  \<^verbatim>\<open>categoryKeywords\<close> is an object literal with string keys; its own order is
  the order of \<^verbatim>\<open>Object.keys\<close> and \<^verbatim>\<open>Object.entries\<close>, so it is an
  association list. The list of \<^verbatim>\<open>Food & Dining\<close> names
  \<^verbatim>\<open>restaurant\<close> twice, as the source does.
\<close>

definition categoryKeywords :: "(string \<times> string list) list" where
  "categoryKeywords =
   [(''Food & Dining'',
      [''restaurant'', ''coffee'', ''lunch'', ''dinner'', ''breakfast'', ''cafe'', ''starbucks'',
       ''mcdonalds'', ''kfc'', ''pizza'', ''burger'', ''food'', ''eat'', ''meal'', ''snack'',
       ''restaurant'', ''diner'', ''bistro'', ''bakery'', ''donut'', ''sandwich'', ''sushi'',
       ''chinese'', ''italian'', ''mexican'', ''thai'', ''indian'', ''fast food'', ''takeout'']),
    (''Groceries'',
      [''grocery'', ''groceries'', ''supermarket'', ''walmart'', ''target'', ''costco'',
       ''whole foods'', ''safeway'', ''kroger'', ''publix'', ''trader joes'', ''market'',
       ''vegetables'', ''fruits'', ''meat'', ''dairy'', ''bread'', ''milk'', ''eggs'',
       ''shopping'', ''food shopping'', ''weekly shopping'']),
    (''Transportation'',
      [''gas'', ''gasoline'', ''fuel'', ''car'', ''uber'', ''lyft'', ''taxi'', ''train'',
       ''bus'', ''subway'', ''metro'', ''parking'', ''toll'', ''vehicle'', ''transport'',
       ''travel'', ''commute'', ''flight'', ''airline'', ''airport'', ''rental car'',
       ''auto'', ''motorcycle'', ''bike repair'']),
    (''Entertainment'',
      [''movie'', ''cinema'', ''theater'', ''concert'', ''show'', ''game'', ''bowling'',
       ''amusement'', ''park'', ''zoo'', ''museum'', ''netflix'', ''spotify'', ''music'',
       ''entertainment'', ''fun'', ''leisure'', ''hobby'', ''sports'', ''gym membership'',
       ''streaming'', ''subscription'', ''gaming'', ''books'', ''magazine'']),
    (''Shopping'',
      [''amazon'', ''clothes'', ''clothing'', ''shoes'', ''shirt'', ''pants'', ''dress'',
       ''store'', ''mall'', ''shopping'', ''purchase'', ''buy'', ''bought'', ''retail'',
       ''electronics'', ''phone'', ''computer'', ''laptop'', ''accessories'', ''jewelry'',
       ''cosmetics'', ''makeup'', ''perfume'', ''home goods'', ''furniture'']),
    (''Utilities'',
      [''electric'', ''electricity'', ''gas bill'', ''water'', ''internet'', ''phone bill'',
       ''cable'', ''utility'', ''utilities'', ''bill'', ''power'', ''heating'', ''cooling'',
       ''trash'', ''garbage'', ''recycling'', ''sewer'', ''landline'', ''mobile bill'']),
    (''Healthcare'',
      [''doctor'', ''hospital'', ''pharmacy'', ''medicine'', ''prescription'', ''medical'',
       ''health'', ''dental'', ''dentist'', ''clinic'', ''checkup'', ''surgery'', ''therapy'',
       ''insurance'', ''copay'', ''medication'', ''drugs'', ''treatment'', ''appointment'',
       ''urgent care'', ''emergency room'', ''specialist'']),
    (''Other'',
      [''miscellaneous'', ''misc'', ''other'', ''various'', ''random'', ''unknown''])]"

text \<open>\<^verbatim>\<open>categoryKeywords[category] || []\<close>\<close>

definition keywordsOf :: "string \<Rightarrow> string list" where
  "keywordsOf category =
     (case map_of categoryKeywords category of Some ks \<Rightarrow> ks | None \<Rightarrow> [])"

definition categoryOrder :: "string list" where
  "categoryOrder =
     [''Healthcare'', ''Transportation'', ''Groceries'', ''Food & Dining'',
      ''Utilities'', ''Entertainment'', ''Shopping'', ''Other'']"

text \<open>The inner loop of \<^verbatim>\<open>categorizeExpense\<close>: does some keyword of the list
  occur in the normalized description? The loop returns at the first one that does.\<close>

fun anyKeyword :: "string \<Rightarrow> string list \<Rightarrow> bool" where
  "anyKeyword d [] = False"
| "anyKeyword d (keyword # keywords) =
     (if includes_str d (toLowerCase keyword) then True else anyKeyword d keywords)"

text \<open>The outer loop: the first category of the list with such a keyword, if any.\<close>

fun scanCategories :: "string \<Rightarrow> string list \<Rightarrow> string option" where
  "scanCategories d [] = None"
| "scanCategories d (category # categories) =
     (if anyKeyword d (keywordsOf category) then Some category
      else scanCategories d categories)"

definition categorizeExpense :: "jsval \<Rightarrow> string" where
  "categorizeExpense description =
     (if \<not> truthy description \<or> typeof description \<noteq> TString then ''Other''
      else case description of
        JStr s \<Rightarrow>
          (let normalizedDescription = trim (toLowerCase s)
           in case scanCategories normalizedDescription categoryOrder of
                Some category \<Rightarrow> category
              | None \<Rightarrow> ''Other'')
      | _ \<Rightarrow> ''Other'')"

text \<open>
  \<^verbatim>\<open>getSuggestedCategories\<close>. The score of a category is accumulated over its
  keyword list, in order.
\<close>

fun scoreKeywords :: "string \<Rightarrow> string list \<Rightarrow> nat \<Rightarrow> nat" where
  "scoreKeywords d [] score = score"
| "scoreKeywords d (keyword # keywords) score =
     scoreKeywords d keywords
       (if includes_str d (toLowerCase keyword) then score + length keyword else score)"

fun collectSuggestions :: "string \<Rightarrow> (string \<times> string list) list \<Rightarrow> (string \<times> nat) list" where
  "collectSuggestions d [] = []"
| "collectSuggestions d ((category, keywords) # entries) =
     (let score = scoreKeywords d keywords 0
      in if score > 0 then (category, score) # collectSuggestions d entries
         else collectSuggestions d entries)"

text \<open>
  \<^verbatim>\<open>sort((a, b) => b.score - a.score)\<close>: \<^verbatim>\<open>Array.prototype.sort\<close> is
  stable, so it is an insertion sort that puts an entry before the first one whose
  score is not greater.
\<close>

fun insertByScore :: "string \<times> nat \<Rightarrow> (string \<times> nat) list \<Rightarrow> (string \<times> nat) list" where
  "insertByScore a [] = [a]"
| "insertByScore a (b # bs) =
     (if snd b > snd a then b # insertByScore a bs else a # b # bs)"

fun sortByScore :: "(string \<times> nat) list \<Rightarrow> (string \<times> nat) list" where
  "sortByScore [] = []"
| "sortByScore (a # as) = insertByScore a (sortByScore as)"

definition getSuggestedCategories :: "string \<Rightarrow> string list" where
  "getSuggestedCategories description =
     (if description = [] \<or> length description < 2 then map fst categoryKeywords
      else
        let normalizedDescription = toLowerCase description;
            suggestions = collectSuggestions normalizedDescription categoryKeywords
        in map fst (take 3 (sortByScore suggestions)))"

text \<open>The score that the loop of \<^verbatim>\<open>getSuggestedCategories\<close> computes for a
  category of the table.\<close>

definition categoryScore :: "string \<Rightarrow> string \<Rightarrow> nat" where
  "categoryScore d category = scoreKeywords d (keywordsOf category) 0"

section \<open>Regular expressions\<close>

text \<open>
  The parser is written with regular expressions. They are embedded as terms, and
  matched the way the language defines it: a backtracking search in which an
  alternation tries its branches from left to right and a quantifier is greedy. The
  matcher returns every way to match from a position, best first, so the head of the
  list is the match that \<^verbatim>\<open>RegExp.prototype.exec\<close> finds there.
\<close>

datatype regex =
    Eps
  | Lit char
  | Digit
  | Space
  | Bol
  | Eol
  | Seq regex regex
  | Alt regex regex
  | Star regex
  | Group regex

text \<open>
  \<open>Lit c\<close> is the character \<open>c\<close>, \<open>Digit\<close> is \<^verbatim>\<open>\d\<close>, \<open>Space\<close> is \<^verbatim>\<open>\s\<close>,
  \<open>Bol\<close> and \<open>Eol\<close> are \<^verbatim>\<open>^\<close> and \<^verbatim>\<open>$\<close> (no pattern has the
  \<^verbatim>\<open>m\<close> flag), \<open>Star\<close> is the greedy \<^verbatim>\<open>*\<close>, and \<open>Group\<close> is the capturing
  group: no pattern has more than one, and none is under a quantifier.
\<close>

definition Opt :: "regex \<Rightarrow> regex" where
  "Opt r = Alt r Eps"

definition Plus :: "regex \<Rightarrow> regex" where
  "Plus r = Seq r (Star r)"

fun lit :: "string \<Rightarrow> regex" where
  "lit [] = Eps"
| "lit [c] = Lit c"
| "lit (c # cs) = Seq (Lit c) (lit cs)"

fun seqs :: "regex list \<Rightarrow> regex" where
  "seqs [] = Eps"
| "seqs [r] = r"
| "seqs (r # rs) = Seq r (seqs rs)"

fun alts :: "regex list \<Rightarrow> regex" where
  "alts [] = Eps"
| "alts [r] = r"
| "alts (r # rs) = Alt r (alts rs)"

definition oneOf :: "string list \<Rightarrow> regex" where
  "oneOf ws = alts (map lit ws)"

text \<open>
  A matcher state: whether the position is the start of the input, the input that is
  left, and what the group has captured.
\<close>

type_synonym mstate = "bool \<times> string \<times> string option"

text \<open>
  Under the \<^verbatim>\<open>i\<close> flag two characters match when their canonical forms are
  equal. The canonical form of a character is its upper-case form when that is one code
  unit, and the character itself otherwise; no character from 128 on has a canonical
  form below 128.
\<close>

definition canonicalize :: "char \<Rightarrow> nat" where
  "canonicalize c =
     (case upperCaseOf c of
        [u] \<Rightarrow> if 128 \<le> (of_char c :: nat) \<and> u < 128 then of_char c else u
      | _ \<Rightarrow> of_char c)"

definition litMatches :: "bool \<Rightarrow> char \<Rightarrow> char \<Rightarrow> bool" where
  "litMatches ignoreCase c x =
     (if ignoreCase then canonicalize x = canonicalize c else x = c)"

fun oneChar :: "(char \<Rightarrow> bool) \<Rightarrow> mstate \<Rightarrow> mstate list" where
  "oneChar P (b, [], cap) = []"
| "oneChar P (b, x # xs, cap) = (if P x then [(False, xs, cap)] else [])"

fun remaining :: "mstate \<Rightarrow> nat" where
  "remaining (b, s, cap) = length s"

fun matches :: "bool \<Rightarrow> regex \<Rightarrow> mstate \<Rightarrow> mstate list" where
  "matches i Eps st = [st]"
| "matches i (Lit c) st = oneChar (litMatches i c) st"
| "matches i Digit st = oneChar isDigit st"
| "matches i Space st = oneChar isSpace st"
| "matches i Bol (b, s, cap) = (if b then [(b, s, cap)] else [])"
| "matches i Eol (b, s, cap) = (if s = [] then [(b, s, cap)] else [])"
| "matches i (Seq r1 r2) st = concat (map (matches i r2) (matches i r1 st))"
| "matches i (Alt r1 r2) st = matches i r1 st @ matches i r2 st"
| "matches i (Star r) st =
     concat (map (\<lambda>st'. if remaining st' < remaining st then matches i (Star r) st' else [])
                 (matches i r st)) @ [st]"
| "matches i (Group r) (b, s, cap) =
     map (\<lambda>(b', s', cap'). (b', s', Some (take (length s - length s') s)))
         (matches i r (b, s, cap))"

text \<open>A pattern with its \<^verbatim>\<open>i\<close> flag.\<close>

record pattern =
  source :: regex
  ignoreCase :: bool

text \<open>
  \<open>exec p s\<close>: the leftmost match in \<open>s\<close>, as the text before it, the text matched,
  the text after it, and the capture. \<open>exec_from\<close> is the search, position by position;
  it carries the text already passed and whether the position is still the start.
\<close>

fun exec_from :: "pattern \<Rightarrow> bool \<Rightarrow> string \<Rightarrow> string
    \<Rightarrow> (string \<times> string \<times> string \<times> string option) option" where
  "exec_from p b pre [] =
     (case matches (ignoreCase p) (source p) (b, [], None) of
        (b', s', cap) # _ \<Rightarrow> Some (pre, [], s', cap)
      | [] \<Rightarrow> None)"
| "exec_from p b pre (x # xs) =
     (case matches (ignoreCase p) (source p) (b, x # xs, None) of
        (b', s', cap) # _ \<Rightarrow>
          Some (pre, take (length (x # xs) - length s') (x # xs), s', cap)
      | [] \<Rightarrow> exec_from p False (pre @ [x]) xs)"

definition exec :: "pattern \<Rightarrow> string \<Rightarrow> (string \<times> string \<times> string \<times> string option) option" where
  "exec p s = exec_from p True [] s"

text \<open>\<^verbatim>\<open>s.match(p)\<close> for a pattern without the \<^verbatim>\<open>g\<close> flag, read at
  \<^verbatim>\<open>[1]\<close>: \<open>None\<close> is no match, \<open>Some None\<close> a match in which the group
  took no part.\<close>

definition match1 :: "pattern \<Rightarrow> string \<Rightarrow> string option option" where
  "match1 p s = (case exec p s of None \<Rightarrow> None | Some (pre, m, post, cap) \<Rightarrow> Some cap)"

definition test :: "pattern \<Rightarrow> string \<Rightarrow> bool" where
  "test p s = (exec p s \<noteq> None)"

text \<open>\<^verbatim>\<open>s.replace(p, rep)\<close> for a pattern without the \<^verbatim>\<open>g\<close> flag: the
  leftmost match is replaced.\<close>

definition replaceFirst :: "pattern \<Rightarrow> string \<Rightarrow> string \<Rightarrow> string" where
  "replaceFirst p rep s =
     (case exec p s of None \<Rightarrow> s | Some (pre, m, post, cap) \<Rightarrow> pre @ rep @ post)"

text \<open>
  \<^verbatim>\<open>s.replace(p, rep)\<close> for a pattern with the \<^verbatim>\<open>g\<close> flag: matches are
  taken from left to right, each search starting where the last match ended, and one
  character further after an empty match.
\<close>

function replaceAll_from :: "pattern \<Rightarrow> string \<Rightarrow> bool \<Rightarrow> string \<Rightarrow> string" where
  "replaceAll_from p rep b [] =
     (case matches (ignoreCase p) (source p) (b, [], None) of
        _ # _ \<Rightarrow> rep
      | [] \<Rightarrow> [])"
| "replaceAll_from p rep b (x # xs) =
     (case matches (ignoreCase p) (source p) (b, x # xs, None) of
        (b', s', cap) # _ \<Rightarrow>
          (if length s' < length (x # xs) then rep @ replaceAll_from p rep False s'
           else rep @ x # replaceAll_from p rep False xs)
      | [] \<Rightarrow> x # replaceAll_from p rep False xs)"
  by pat_completeness auto
termination
  by (relation "measure (\<lambda>(p, rep, b, s). length s)") auto

definition replaceAll :: "pattern \<Rightarrow> string \<Rightarrow> string \<Rightarrow> string" where
  "replaceAll p rep s = replaceAll_from p rep True s"

section \<open>The utterance parser\<close>

record ParsedExpense =
  amount :: jsnum
  description :: "nat list"
  date :: "int option"

text \<open>
  \<^verbatim>\<open>description\<close> is a list of code units, since its first character has
  been through \<^verbatim>\<open>toUpperCase\<close>. \<^verbatim>\<open>date\<close> is optional in the interface,
  so it is an option here. A \<^verbatim>\<open>Date\<close> is its time value, the milliseconds since
  the epoch.
\<close>

definition msPerDay :: int where
  "msPerDay = 24 * 60 * 60 * 1000"

text \<open>
  The local time zone belongs to the environment of the program. A zone is given by the
  offset of local time from UTC, in milliseconds, before an instant and from that
  instant on: a zone that changes its offset once, as a zone with daylight saving does
  on the day it begins or ends, or never, when the two offsets are equal. When the
  offset grows, local times are skipped; as daylight-saving changes are made at night,
  the skipped times end by 09:00 of the local day in which they begin.
\<close>

typedef zone =
  "{z :: int \<times> int \<times> int.
      case z of (offsetBefore, offsetAfter, changeAt) \<Rightarrow>
        offsetBefore < offsetAfter \<longrightarrow>
          (changeAt + offsetBefore) mod msPerDay + (offsetAfter - offsetBefore)
            \<le> 9 * 60 * 60 * 1000}"
  by (rule exI [of _ "(0, 0, 0)"]) simp

setup_lifting type_definition_zone

text \<open>\<open>makeZone\<close> builds a zone; a change that would skip local times past 09:00 is
  left out.\<close>

lift_definition makeZone :: "int \<Rightarrow> int \<Rightarrow> int \<Rightarrow> zone" is
  "\<lambda>offsetBefore offsetAfter changeAt.
     if offsetBefore < offsetAfter
        \<and> \<not> (changeAt + offsetBefore) mod msPerDay + (offsetAfter - offsetBefore)
               \<le> 9 * 60 * 60 * 1000
     then (offsetBefore, offsetBefore, changeAt)
     else (offsetBefore, offsetAfter, changeAt)"
  by auto

text \<open>
  The offset in force at an instant, \<^verbatim>\<open>LocalTime(t)\<close>, and \<^verbatim>\<open>UTC(t)\<close>, which
  reads a local time that occurs twice or is skipped with the offset before the
  change.
\<close>

lift_definition LocalTZA :: "zone \<Rightarrow> int \<Rightarrow> int" is
  "\<lambda>(offsetBefore, offsetAfter, changeAt) t.
     if t < changeAt then offsetBefore else offsetAfter" .

definition LocalTime :: "zone \<Rightarrow> int \<Rightarrow> int" where
  "LocalTime z t = t + LocalTZA z t"

lift_definition UTC :: "zone \<Rightarrow> int \<Rightarrow> int" is
  "\<lambda>(offsetBefore, offsetAfter, changeAt) t.
     if t - offsetBefore < changeAt then t - offsetBefore
     else if changeAt \<le> t - offsetAfter then t - offsetAfter
     else t - offsetBefore" .

text \<open>
  The parser reads the clock: \<^verbatim>\<open>new Date()\<close> once, and \<^verbatim>\<open>Date.now()\<close>
  once more when the text says yesterday. Both readings are inputs of the model, and so
  is the zone.
\<close>

record environment =
  new_Date :: int
  Date_now :: int
  timeZone :: zone

text \<open>\<^verbatim>\<open>d.setHours(h, m, s, ms)\<close>: the same local day, at the given local time.\<close>

definition setHours :: "environment \<Rightarrow> int \<Rightarrow> int \<Rightarrow> int \<Rightarrow> int \<Rightarrow> int \<Rightarrow> int" where
  "setHours env t h m s ms =
     (let localTime = LocalTime (timeZone env) t;
          day = localTime div msPerDay
      in UTC (timeZone env) (day * msPerDay + (((h * 60 + m) * 60 + s) * 1000 + ms)))"

text \<open>The local clock time of a time value, in milliseconds since local midnight, and
  its fields.\<close>

definition timeWithinDay :: "environment \<Rightarrow> int \<Rightarrow> int" where
  "timeWithinDay env t = LocalTime (timeZone env) t mod msPerDay"

definition getHours :: "environment \<Rightarrow> int \<Rightarrow> int" where
  "getHours env t = timeWithinDay env t div (60 * 60 * 1000)"

definition getMinutes :: "environment \<Rightarrow> int \<Rightarrow> int" where
  "getMinutes env t = (timeWithinDay env t div (60 * 1000)) mod 60"

definition getSeconds :: "environment \<Rightarrow> int \<Rightarrow> int" where
  "getSeconds env t = (timeWithinDay env t div 1000) mod 60"

definition getMilliseconds :: "environment \<Rightarrow> int \<Rightarrow> int" where
  "getMilliseconds env t = timeWithinDay env t mod 1000"

subsection \<open>The amount\<close>

text \<open>\<^verbatim>\<open>\d+(?:\.\d{2})?\<close>\<close>

definition number :: regex where
  "number = Seq (Plus Digit) (Opt (seqs [Lit CHR ''.'', Digit, Digit]))"

text \<open>\<^verbatim>\<open>dollars?|bucks?\<close>\<close>

definition currencyWords :: "regex list" where
  "currencyWords =
     [Seq (lit ''dollar'') (Opt (Lit CHR ''s'')), Seq (lit ''buck'') (Opt (Lit CHR ''s''))]"

definition amountPatterns :: "pattern list" where
  "amountPatterns =
     [\<lparr>source = seqs [oneOf [''spent'', ''paid'', ''cost'', ''was'', ''for''], Star Space,
                      Opt (Lit CHR ''$''), Group number, Star Space,
                      alts (currencyWords @ [Eol])],
       ignoreCase = True\<rparr>,
      \<lparr>source = seqs [Lit CHR ''$'', Group number],
       ignoreCase = False\<rparr>,
      \<lparr>source = seqs [Group number, Star Space, alts currencyWords],
       ignoreCase = True\<rparr>,
      \<lparr>source = seqs [oneOf [''spent'', ''paid'', ''cost'', ''was''], Star Space, Group number],
       ignoreCase = True\<rparr>]"

text \<open>
  \<^verbatim>\<open>parseFloat\<close> on a string that starts with a decimal digit, which is what
  the group of every amount pattern captures: the digits, and a fraction if a point
  follows them. Any other string, and a group that took no part in the match, give
  \<^verbatim>\<open>NaN\<close> here. The value is the double nearest to the decimal, and
  \<^verbatim>\<open>Infinity\<close> from \<open>2 ^ 1024 - 2 ^ 970\<close> on, where the nearest double no longer
  exists.
\<close>

definition digitValue :: "char \<Rightarrow> nat" where
  "digitValue c = of_char c - 48"

fun digitsValue :: "nat \<Rightarrow> string \<Rightarrow> nat" where
  "digitsValue acc [] = acc"
| "digitsValue acc (c # cs) = digitsValue (10 * acc + digitValue c) cs"

definition toNumber :: "rat \<Rightarrow> jsnum" where
  "toNumber q = (if q \<ge> 2 ^ 1024 - 2 ^ 970 then PosInf else Fin q)"

definition parseFloat :: "string option \<Rightarrow> jsnum" where
  "parseFloat arg =
     (case arg of
        None \<Rightarrow> NaN
      | Some s \<Rightarrow>
          (let intDigits = takeWhile isDigit s;
               rest = dropWhile isDigit s;
               fracDigits = (case rest of
                               c # rest' \<Rightarrow> if c = CHR ''.'' then takeWhile isDigit rest' else []
                             | [] \<Rightarrow> [])
           in if intDigits = [] then NaN
              else toNumber (of_nat (digitsValue 0 intDigits)
                             + of_nat (digitsValue 0 fracDigits) / 10 ^ length fracDigits)))"

text \<open>The body of the loop over the patterns: the number that a pattern gives, when it
  matches and the number is not \<^verbatim>\<open>NaN\<close> and is positive.\<close>

definition tryPattern :: "pattern \<Rightarrow> string \<Rightarrow> jsnum option" where
  "tryPattern p normalizedText =
     (case match1 p normalizedText of
        Some m1 \<Rightarrow>
          (let parsedAmount = parseFloat m1
           in if \<not> isNaN parsedAmount \<and> num_gt parsedAmount 0 then Some parsedAmount
              else None)
      | None \<Rightarrow> None)"

text \<open>The loop: it breaks at the first pattern that gives a number.\<close>

fun findAmount :: "pattern list \<Rightarrow> string \<Rightarrow> jsnum option" where
  "findAmount [] normalizedText = None"
| "findAmount (p # ps) normalizedText =
     (case tryPattern p normalizedText of
        Some a \<Rightarrow> Some a
      | None \<Rightarrow> findAmount ps normalizedText)"

subsection \<open>The description\<close>

definition stripPatterns :: "pattern list" where
  "stripPatterns =
     [\<lparr>source = Seq (oneOf [''spent'', ''paid'', ''cost'', ''was'', ''for'', ''i'', ''bought'',
                            ''purchase'', ''purchased''])
                    (Star Space),
       ignoreCase = True\<rparr>,
      \<lparr>source = seqs [Opt (Lit CHR ''$''), number, Star Space, Opt (alts currencyWords)],
       ignoreCase = True\<rparr>,
      \<lparr>source = Seq (oneOf [''on'', ''for'']) (Star Space),
       ignoreCase = True\<rparr>,
      \<lparr>source = seqs [lit ''this'', Plus Space,
                      oneOf [''morning'', ''afternoon'', ''evening'', ''night'']],
       ignoreCase = True\<rparr>,
      \<lparr>source = oneOf [''today'', ''yesterday'', ''earlier''],
       ignoreCase = True\<rparr>]"

definition leadingConnector :: pattern where
  "leadingConnector =
     \<lparr>source = seqs [Bol, oneOf [''on'', ''for'', ''at''], Plus Space], ignoreCase = True\<rparr>"

definition whiteSpaceRun :: pattern where
  "whiteSpaceRun = \<lparr>source = Plus Space, ignoreCase = False\<rparr>"

definition leadingAmount :: pattern where
  "leadingAmount = \<lparr>source = seqs [Bol, Opt (Lit CHR ''$''), Plus Digit], ignoreCase = False\<rparr>"

definition stopWords :: "string list" where
  "stopWords = [''spent'', ''paid'', ''cost'', ''was'', ''for'', ''on'', ''i'',
                ''dollars'', ''dollar'', ''bucks'', ''buck'']"

text \<open>\<^verbatim>\<open>s.split(' ')\<close> and \<^verbatim>\<open>words.join(' ')\<close>.\<close>

fun split :: "char \<Rightarrow> string \<Rightarrow> string list" where
  "split sep [] = [[]]"
| "split sep (c # cs) =
     (if c = sep then [] # split sep cs
      else case split sep cs of w # ws \<Rightarrow> (c # w) # ws | [] \<Rightarrow> [[c]])"

fun join :: "string \<Rightarrow> string list \<Rightarrow> string" where
  "join sep [] = []"
| "join sep [w] = w"
| "join sep (w # ws) = w @ sep @ join sep ws"

text \<open>The chain of \<^verbatim>\<open>replace\<close> calls that strips the text, up to the second
  \<^verbatim>\<open>trim\<close>.\<close>

definition stripText :: "string \<Rightarrow> string" where
  "stripText text =
     (let d = trim (fold (\<lambda>p d. replaceAll p [] d) stripPatterns text);
          d = replaceFirst leadingConnector [] d
      in trim (replaceAll whiteSpaceRun '' '' d))"

text \<open>The words of the original text that neither start with an amount nor are stop
  words.\<close>

definition wordsOf :: "string \<Rightarrow> string" where
  "wordsOf text =
     trim (join '' '' (filter (\<lambda>word. \<not> test leadingAmount word
                                       \<and> toLowerCase word \<notin> set stopWords)
                              (split CHR '' '' text)))"

text \<open>\<^verbatim>\<open>d.charAt(0).toUpperCase() + d.slice(1)\<close>\<close>

definition capitalize :: "string \<Rightarrow> nat list" where
  "capitalize d = toUpperCase (take 1 d) @ units (drop 1 d)"

definition extractDescription :: "string \<Rightarrow> nat list" where
  "extractDescription text =
     (let d = stripText text;
          d = (if length d < 2 then wordsOf text else d);
          d = (if length d < 2 then ''Expense'' else d)
      in capitalize d)"

subsection \<open>The date\<close>

definition inferDate :: "environment \<Rightarrow> string \<Rightarrow> int" where
  "inferDate env normalizedText =
     (let d = new_Date env
      in if includes_str normalizedText ''yesterday'' then Date_now env - 24 * 60 * 60 * 1000
         else if includes_str normalizedText ''this morning'' then setHours env d 9 0 0 0
         else if includes_str normalizedText ''this afternoon'' then setHours env d 14 0 0 0
         else if includes_str normalizedText ''this evening''
                 \<or> includes_str normalizedText ''tonight'' then setHours env d 19 0 0 0
         else d)"

subsection \<open>\<^verbatim>\<open>parseVoiceInput\<close> and \<^verbatim>\<open>validateParsedExpense\<close>\<close>

text \<open>\<open>None\<close> is the \<^verbatim>\<open>null\<close> that the parser returns.\<close>

definition parseVoiceInput :: "environment \<Rightarrow> jsval \<Rightarrow> ParsedExpense option" where
  "parseVoiceInput env text =
     (if \<not> truthy text \<or> typeof text \<noteq> TString then None
      else case text of
        JStr s \<Rightarrow>
          (let normalizedText = trim (toLowerCase s)
           in case findAmount amountPatterns normalizedText of
                None \<Rightarrow> None
              | Some a \<Rightarrow>
                  if \<not> truthy (JNum a) then None
                  else Some \<lparr>amount = a,
                             description = extractDescription s,
                             date = Some (inferDate env normalizedText)\<rparr>)
      | _ \<Rightarrow> None)"

text \<open>
  \<^verbatim>\<open>validateParsedExpense\<close> returns the value of a chain of \<^verbatim>\<open>&&\<close>: its
  argument when that is falsy, and otherwise the boolean the comparisons give.
\<close>

definition validateParsedExpense :: "jsval \<Rightarrow> jsval" where
  "validateParsedExpense expense =
     (if \<not> truthy expense then expense
      else JBool
        (typeof (prop_amount expense) = TNumber \<and>
         (case prop_amount expense of
            JNum a \<Rightarrow> num_gt a 0 \<and> num_lt a 10000
          | _ \<Rightarrow> False) \<and>
         typeof (prop_description expense) = TString \<and>
         (case prop_description expense of
            JStr d \<Rightarrow> length d > 0 \<and> length d < 200
          | _ \<Rightarrow> False)))"

section \<open>Properties of the validation\<close>

lemma num_between:
  "num_gt n lo \<and> num_lt n hi \<longleftrightarrow> (\<exists>x. n = Fin x \<and> lo < x \<and> x < hi)"
  by (cases n) auto

text \<open>
  Claim C4. \<^verbatim>\<open>validateParsedExpense\<close> returns \<^verbatim>\<open>true\<close> exactly for an
  object whose \<^verbatim>\<open>amount\<close> is a number strictly between 0 and 10000 and whose
  \<^verbatim>\<open>description\<close> is a string of length at least 1 and less than 200. It
  returns \<^verbatim>\<open>false\<close> for the amount 10000 and \<^verbatim>\<open>true\<close> for the amount
  9999.99, each with the description \<^verbatim>\<open>x\<close>.
\<close>

theorem validateParsedExpense_iff:
  "(validateParsedExpense c = JBool True \<longleftrightarrow>
      (\<exists>x d. c = JObj (JNum (Fin x)) (JStr d) \<and> 0 < x \<and> x < 10000
             \<and> 1 \<le> length d \<and> length d < 200))
   \<and> validateParsedExpense (JObj (JNum (Fin 10000)) (JStr ''x'')) = JBool False
   \<and> validateParsedExpense (JObj (JNum (Fin (999999 / 100))) (JStr ''x'')) = JBool True"
proof -
  have "validateParsedExpense c = JBool True \<longleftrightarrow>
      (\<exists>x d. c = JObj (JNum (Fin x)) (JStr d) \<and> 0 < x \<and> x < 10000
             \<and> 1 \<le> length d \<and> length d < 200)"
  proof (cases c)
    case (JObj a d)
    then show ?thesis
      using num_between [of _ 0 10000]
      by (cases a; cases d) (auto simp: validateParsedExpense_def Suc_le_eq)
  next
    case (JNum n)
    then show ?thesis by (cases n) (auto simp: validateParsedExpense_def)
  qed (auto simp: validateParsedExpense_def)
  moreover have "validateParsedExpense (JObj (JNum (Fin 10000)) (JStr ''x'')) = JBool False"
    by (simp add: validateParsedExpense_def)
  moreover have
    "validateParsedExpense (JObj (JNum (Fin (999999 / 100))) (JStr ''x'')) = JBool True"
    by (simp add: validateParsedExpense_def)
  ultimately show ?thesis by blast
qed

theorem validateParsedExpense_iff_witness:
  "validateParsedExpense (JObj (JNum (Fin 5)) (JStr ''Coffee'')) = JBool True
   \<and> validateParsedExpense (JObj (JNum PosInf) (JStr ''Coffee'')) \<noteq> JBool True
   \<and> validateParsedExpense (JObj (JNum (Fin 5)) (JStr [])) \<noteq> JBool True
   \<and> validateParsedExpense JNull \<noteq> JBool True"
  using validateParsedExpense_iff [of "JObj (JNum (Fin 5)) (JStr ''Coffee'')"]
    validateParsedExpense_iff [of "JObj (JNum PosInf) (JStr ''Coffee'')"]
    validateParsedExpense_iff [of "JObj (JNum (Fin 5)) (JStr [])"]
    validateParsedExpense_iff [of JNull]
  by simp

section \<open>Properties of the classifier\<close>

lemmas char_eval = toLowerChar_def upperCaseOf_def canonicalize_def toUpperCase_def units_def
  isSpace_def isDigit_def char_of_def bit_Suc_0_iff

lemma anyKeyword_iff:
  "anyKeyword d ks \<longleftrightarrow> (\<exists>k\<in>set ks. includes_str d (toLowerCase k))"
  by (induction ks) auto

lemma scanCategories_find:
  "scanCategories d cs = List.find (\<lambda>c. anyKeyword d (keywordsOf c)) cs"
  by (induction cs) auto

lemma scan_empty: "scanCategories [] categoryOrder = None"
  by (simp add: categoryOrder_def keywordsOf_def categoryKeywords_def toLowerCase_def)

lemma categorizeExpense_string:
  "categorizeExpense (JStr s) =
     (case scanCategories (trim (toLowerCase s)) categoryOrder of
        Some c \<Rightarrow> c | None \<Rightarrow> ''Other'')"
proof (cases "s = []")
  case True
  then show ?thesis
    by (simp add: categorizeExpense_def scan_empty toLowerCase_def trim_def)
next
  case False
  then show ?thesis
    by (simp add: categorizeExpense_def)
qed

lemma categorizeExpense_non_string:
  "typeof v \<noteq> TString \<Longrightarrow> categorizeExpense v = ''Other''"
  by (simp add: categorizeExpense_def)

lemma categorizeExpense_cases:
  "categorizeExpense v = ''Other'' \<or> categorizeExpense v \<in> set categoryOrder"
proof (cases v)
  case (JStr s)
  show ?thesis
  proof (cases "scanCategories (trim (toLowerCase s)) categoryOrder")
    case None
    then show ?thesis by (simp add: JStr categorizeExpense_string)
  next
    case (Some c)
    then have "c \<in> set categoryOrder"
      by (auto simp: scanCategories_find find_Some_iff)
    then show ?thesis by (simp add: JStr Some categorizeExpense_string)
  qed
qed (simp_all add: categorizeExpense_def)


lemma table_keys:
  "map fst categoryKeywords =
     [''Food & Dining'', ''Groceries'', ''Transportation'', ''Entertainment'',
      ''Shopping'', ''Utilities'', ''Healthcare'', ''Other'']"
  by (simp add: categoryKeywords_def)

lemma order_in_table: "c \<in> set categoryOrder \<Longrightarrow> c \<in> set (map fst categoryKeywords)"
  unfolding table_keys categoryOrder_def by auto

lemma keywordsOf_entry:
  "(c, ks) \<in> set categoryKeywords \<Longrightarrow> keywordsOf c = ks"
proof -
  have "distinct (map fst categoryKeywords)"
    unfolding table_keys by simp
  then show "(c, ks) \<in> set categoryKeywords \<Longrightarrow> keywordsOf c = ks"
    by (simp add: keywordsOf_def)
qed

text \<open>
  Claim C2. For every argument, a string or not, \<^verbatim>\<open>categorizeExpense\<close> returns one of
  the eight category names; it is a total function, so it never raises. When no keyword
  of any category of the table occurs in the normalized text, it returns
  \<^verbatim>\<open>Other\<close>; so it does for the empty string, for white space only and for
  \<^verbatim>\<open>zzz nonsense qqq\<close>.
\<close>

theorem categorizeExpense_total:
  "categorizeExpense v \<in> {''Food & Dining'', ''Groceries'', ''Transportation'', ''Entertainment'',
                           ''Shopping'', ''Utilities'', ''Healthcare'', ''Other''}
   \<and> ((\<forall>(c, ks)\<in>set categoryKeywords. \<forall>k\<in>set ks.
          \<not> includes_str (trim (toLowerCase s)) (toLowerCase k))
        \<longrightarrow> categorizeExpense (JStr s) = ''Other'')
   \<and> categorizeExpense (JStr []) = ''Other''
   \<and> categorizeExpense (JStr ''   '') = ''Other''
   \<and> categorizeExpense (JStr ''zzz nonsense qqq'') = ''Other''"
proof -
  have total: "categorizeExpense v \<in> {''Food & Dining'', ''Groceries'', ''Transportation'',
      ''Entertainment'', ''Shopping'', ''Utilities'', ''Healthcare'', ''Other''}" for v
    using categorizeExpense_cases [of v] by (auto simp: categoryOrder_def)
  have fallback: "categorizeExpense (JStr s) = ''Other''"
    if none: "\<forall>(c, ks)\<in>set categoryKeywords. \<forall>k\<in>set ks.
          \<not> includes_str (trim (toLowerCase s)) (toLowerCase k)" for s
  proof -
    have "\<not> anyKeyword (trim (toLowerCase s)) (keywordsOf c)" if "c \<in> set categoryOrder" for c
    proof -
      from that obtain ks where e: "(c, ks) \<in> set categoryKeywords"
        using order_in_table [of c] by auto
      with none keywordsOf_entry [OF e] show ?thesis
        by (auto simp: anyKeyword_iff)
    qed
    then have "scanCategories (trim (toLowerCase s)) categoryOrder = None"
      by (simp add: scanCategories_find find_None_iff)
    then show ?thesis by (simp add: categorizeExpense_string)
  qed
  have e1: "categorizeExpense (JStr []) = ''Other''"
    by (simp add: categorizeExpense_def)
  have e2: "categorizeExpense (JStr ''   '') = ''Other''"
    by (simp add: categorizeExpense_string trim_def toLowerCase_def char_eval scan_empty)
  have n3: "trim (toLowerCase ''zzz nonsense qqq'') = ''zzz nonsense qqq''"
    by (simp add: trim_def toLowerCase_def char_eval)
  have "scanCategories ''zzz nonsense qqq'' categoryOrder = None"
    by (simp add: categoryOrder_def keywordsOf_def categoryKeywords_def toLowerCase_def char_eval)
  then have e3: "categorizeExpense (JStr ''zzz nonsense qqq'') = ''Other''"
    by (simp add: categorizeExpense_string n3)
  from total fallback e1 e2 e3 show ?thesis by blast
qed


lemma distinct_order: "distinct categoryOrder"
  by (simp add: categoryOrder_def)

lemma eval_dgs_norm: "trim (toLowerCase ''doctor gas shopping'') = ''doctor gas shopping''"
  by (simp add: trim_def toLowerCase_def char_eval)

text \<open>
  Claim C1, as stated, fails when a third category, before both in the list, has a
  keyword in the text as well: \<^verbatim>\<open>doctor gas shopping\<close> holds a keyword of
  \<^verbatim>\<open>Transportation\<close> and one of \<^verbatim>\<open>Shopping\<close>, and the result is
  neither, but \<^verbatim>\<open>Healthcare\<close>.
\<close>

theorem categorizeExpense_third_category_counterexample:
  "categoryOrder ! 1 = ''Transportation'' \<and> categoryOrder ! 6 = ''Shopping''
   \<and> (\<exists>k\<in>set (keywordsOf ''Transportation'').
         includes_str (trim (toLowerCase ''doctor gas shopping'')) (toLowerCase k))
   \<and> (\<exists>k\<in>set (keywordsOf ''Shopping'').
         includes_str (trim (toLowerCase ''doctor gas shopping'')) (toLowerCase k))
   \<and> categorizeExpense (JStr ''doctor gas shopping'') = ''Healthcare''
   \<and> categorizeExpense (JStr ''doctor gas shopping'') \<noteq> ''Transportation''"
proof -
  have o: "categoryOrder ! 1 = ''Transportation''" "categoryOrder ! 6 = ''Shopping''"
    by (simp_all add: categoryOrder_def)
  have t: "\<exists>k\<in>set (keywordsOf ''Transportation'').
         includes_str (trim (toLowerCase ''doctor gas shopping'')) (toLowerCase k)"
    unfolding eval_dgs_norm
    by (rule bexI [of _ "''gas''"])
       (simp_all add: keywordsOf_def categoryKeywords_def toLowerCase_def char_eval)
  have s: "\<exists>k\<in>set (keywordsOf ''Shopping'').
         includes_str (trim (toLowerCase ''doctor gas shopping'')) (toLowerCase k)"
    unfolding eval_dgs_norm
    by (rule bexI [of _ "''shopping''"])
       (simp_all add: keywordsOf_def categoryKeywords_def toLowerCase_def char_eval)
  have "scanCategories ''doctor gas shopping'' categoryOrder = Some ''Healthcare''"
    by (simp add: categoryOrder_def keywordsOf_def categoryKeywords_def toLowerCase_def char_eval)
  then have c: "categorizeExpense (JStr ''doctor gas shopping'') = ''Healthcare''"
    by (simp add: categorizeExpense_string eval_dgs_norm)
  then have "categorizeExpense (JStr ''doctor gas shopping'') \<noteq> ''Transportation''"
    by simp
  with o t s c show ?thesis by (intro conjI)
qed

text \<open>
  Claim C1, amended. When keywords of two categories occur in the normalized text, and one of the
  two stands before the other in the priority list, the result is never the later one:
  it is the first category of the list with a keyword in the text, which is the earlier
  of the two unless a category before it has a keyword in the text as well. So
  \<^verbatim>\<open>doctor shopping trip\<close> is \<^verbatim>\<open>Healthcare\<close>, not
  \<^verbatim>\<open>Shopping\<close>.
\<close>

theorem categorizeExpense_priority:
  assumes "i < j" and "j < length categoryOrder"
    and "\<exists>k\<in>set (keywordsOf (categoryOrder ! i)).
           includes_str (trim (toLowerCase s)) (toLowerCase k)"
    and "\<exists>k\<in>set (keywordsOf (categoryOrder ! j)).
           includes_str (trim (toLowerCase s)) (toLowerCase k)"
  shows "categorizeExpense (JStr s) \<noteq> categoryOrder ! j
    \<and> (\<exists>m\<le>i. categorizeExpense (JStr s) = categoryOrder ! m
          \<and> (\<exists>k\<in>set (keywordsOf (categoryOrder ! m)).
                 includes_str (trim (toLowerCase s)) (toLowerCase k))
          \<and> (\<forall>l<m. \<not> (\<exists>k\<in>set (keywordsOf (categoryOrder ! l)).
                 includes_str (trim (toLowerCase s)) (toLowerCase k))))
    \<and> ((\<forall>l<i. \<not> (\<exists>k\<in>set (keywordsOf (categoryOrder ! l)).
                 includes_str (trim (toLowerCase s)) (toLowerCase k)))
         \<longrightarrow> categorizeExpense (JStr s) = categoryOrder ! i)
    \<and> categorizeExpense (JStr ''doctor shopping trip'') = ''Healthcare''"
proof -
  define d where "d = trim (toLowerCase s)"
  define P where "P = (\<lambda>c. anyKeyword d (keywordsOf c))"
  have i: "i < length categoryOrder" using assms(1,2) by simp
  have Pi: "P (categoryOrder ! i)"
    using assms(3) by (simp add: P_def d_def anyKeyword_iff)
  with i have "List.find P categoryOrder \<noteq> None"
    by (auto simp: find_None_iff in_set_conv_nth)
  then obtain c where c: "List.find P categoryOrder = Some c" by blast
  then obtain m where m: "m < length categoryOrder" "P (categoryOrder ! m)"
      "c = categoryOrder ! m" "\<forall>l<m. \<not> P (categoryOrder ! l)"
    by (auto simp: find_Some_iff)
  have res: "categorizeExpense (JStr s) = categoryOrder ! m"
    using c m(3) by (simp add: categorizeExpense_string scanCategories_find P_def d_def)
  have mi: "m \<le> i"
    using m(4) Pi by (meson not_le)
  have "categoryOrder ! m \<noteq> categoryOrder ! j"
    using mi assms(1,2) m(1) distinct_order by (simp add: nth_eq_iff_index_eq)
  then have a: "categorizeExpense (JStr s) \<noteq> categoryOrder ! j"
    by (simp add: res)
  have b: "\<exists>m\<le>i. categorizeExpense (JStr s) = categoryOrder ! m
          \<and> (\<exists>k\<in>set (keywordsOf (categoryOrder ! m)).
                 includes_str (trim (toLowerCase s)) (toLowerCase k))
          \<and> (\<forall>l<m. \<not> (\<exists>k\<in>set (keywordsOf (categoryOrder ! l)).
                 includes_str (trim (toLowerCase s)) (toLowerCase k)))"
    using mi res m(2,4) unfolding P_def d_def anyKeyword_iff by blast
  have c': "categorizeExpense (JStr s) = categoryOrder ! i"
    if "\<forall>l<i. \<not> (\<exists>k\<in>set (keywordsOf (categoryOrder ! l)).
                 includes_str (trim (toLowerCase s)) (toLowerCase k))"
  proof -
    from that m(2) have "\<not> m < i"
      unfolding P_def d_def anyKeyword_iff by blast
    with mi have "m = i" by simp
    then show ?thesis by (simp add: res)
  qed
  have n: "trim (toLowerCase ''doctor shopping trip'') = ''doctor shopping trip''"
    by (simp add: trim_def toLowerCase_def char_eval)
  have "scanCategories ''doctor shopping trip'' categoryOrder = Some ''Healthcare''"
    by (simp add: categoryOrder_def keywordsOf_def categoryKeywords_def toLowerCase_def char_eval)
  then have e: "categorizeExpense (JStr ''doctor shopping trip'') = ''Healthcare''"
    by (simp add: categorizeExpense_string n)
  from a b c' e show ?thesis by blast
qed

theorem categorizeExpense_priority_witness:
  "categorizeExpense (JStr ''doctor shopping trip'') \<noteq> ''Shopping''
   \<and> categorizeExpense (JStr ''doctor shopping trip'') = ''Healthcare''"
proof -
  have n: "trim (toLowerCase ''doctor shopping trip'') = ''doctor shopping trip''"
    by (simp add: trim_def toLowerCase_def char_eval)
  have o: "categoryOrder ! 0 = ''Healthcare''" "categoryOrder ! 6 = ''Shopping''"
    "length categoryOrder = 8"
    by (simp_all add: categoryOrder_def)
  have h1: "\<exists>k\<in>set (keywordsOf (categoryOrder ! 0)).
           includes_str (trim (toLowerCase ''doctor shopping trip'')) (toLowerCase k)"
    unfolding n o
    by (rule bexI [of _ "''doctor''"])
       (simp_all add: keywordsOf_def categoryKeywords_def toLowerCase_def char_eval)
  have h2: "\<exists>k\<in>set (keywordsOf (categoryOrder ! 6)).
           includes_str (trim (toLowerCase ''doctor shopping trip'')) (toLowerCase k)"
    unfolding n o
    by (rule bexI [of _ "''shopping''"])
       (simp_all add: keywordsOf_def categoryKeywords_def toLowerCase_def char_eval)
  have "(0::nat) < 6" "6 < length categoryOrder" by (simp_all add: o)
  from categorizeExpense_priority [OF this h1 h2] show ?thesis
    by (simp add: o)
qed

theorem categorizeExpense_total_witness:
  "categorizeExpense (JStr ''12345'') = ''Other''"
proof -
  have n: "trim (toLowerCase ''12345'') = ''12345''"
    by (simp add: trim_def toLowerCase_def char_eval)
  have "\<forall>(c, ks)\<in>set categoryKeywords. \<forall>k\<in>set ks.
      \<not> includes_str (trim (toLowerCase ''12345'')) (toLowerCase k)"
    unfolding n by (simp add: categoryKeywords_def toLowerCase_def char_eval)
  with categorizeExpense_total [of "JStr ''12345''" "''12345''"] show ?thesis
    by blast
qed

section \<open>Properties of the suggestions\<close>

lemma scoreKeywords_sum:
  "scoreKeywords d ks acc =
     acc + sum_list (map length (filter (\<lambda>k. includes_str d (toLowerCase k)) ks))"
  by (induction ks arbitrary: acc) auto

lemma collectSuggestions_eq:
  "collectSuggestions d entries =
     map (\<lambda>(c, ks). (c, scoreKeywords d ks 0))
         (filter (\<lambda>(c, ks). scoreKeywords d ks 0 > 0) entries)"
  by (induction d entries rule: collectSuggestions.induct) (auto simp: Let_def)

lemma set_insertByScore: "set (insertByScore a bs) = insert a (set bs)"
  by (induction bs) auto

lemma set_sortByScore: "set (sortByScore xs) = set xs"
  by (induction xs) (auto simp: set_insertByScore)

lemma length_insertByScore: "length (insertByScore a bs) = Suc (length bs)"
  by (induction bs) auto

lemma length_sortByScore: "length (sortByScore xs) = length xs"
  by (induction xs) (auto simp: length_insertByScore)

lemma distinct_insertByScore:
  "distinct (map fst (insertByScore a bs)) \<longleftrightarrow> fst a \<notin> fst ` set bs \<and> distinct (map fst bs)"
  by (induction bs) (auto simp: set_insertByScore)

lemma distinct_sortByScore:
  "distinct (map fst (sortByScore xs)) \<longleftrightarrow> distinct (map fst xs)"
  by (induction xs) (auto simp: distinct_insertByScore set_sortByScore)

lemma sorted_insertByScore:
  "sorted_wrt (\<lambda>a b. snd a \<ge> snd b) bs \<Longrightarrow>
   sorted_wrt (\<lambda>a b. snd a \<ge> snd b) (insertByScore a bs)"
  by (induction bs) (auto simp: set_insertByScore)

lemma sorted_sortByScore: "sorted_wrt (\<lambda>a b. snd a \<ge> snd b) (sortByScore xs)"
  by (induction xs) (auto simp: sorted_insertByScore)

lemma distinct_table: "distinct (map fst categoryKeywords)"
  unfolding table_keys by simp

lemma collect_score:
  assumes "(c, n) \<in> set (collectSuggestions d categoryKeywords)"
  shows "n = categoryScore d c" "0 < n" "c \<in> set (map fst categoryKeywords)"
proof -
  from assms obtain ks where ks: "(c, ks) \<in> set categoryKeywords"
    "n = scoreKeywords d ks 0" "0 < scoreKeywords d ks 0"
    by (auto simp: collectSuggestions_eq)
  from keywordsOf_entry [OF ks(1)] ks show "n = categoryScore d c" "0 < n"
    by (simp_all add: categoryScore_def)
  from ks(1) show "c \<in> set (map fst categoryKeywords)" by force
qed

lemma collect_keys:
  "set (map fst (collectSuggestions d categoryKeywords)) =
     {c \<in> set (map fst categoryKeywords). 0 < categoryScore d c}"
proof (intro set_eqI iffI)
  fix c assume "c \<in> set (map fst (collectSuggestions d categoryKeywords))"
  then obtain n where "(c, n) \<in> set (collectSuggestions d categoryKeywords)" by auto
  from collect_score [OF this]
  show "c \<in> {c \<in> set (map fst categoryKeywords). 0 < categoryScore d c}" by simp
next
  fix c assume "c \<in> {c \<in> set (map fst categoryKeywords). 0 < categoryScore d c}"
  then obtain ks where ks: "(c, ks) \<in> set categoryKeywords" and pos: "0 < categoryScore d c"
    by auto
  from keywordsOf_entry [OF ks] pos have "0 < scoreKeywords d ks 0"
    by (simp add: categoryScore_def)
  with ks have "(c, scoreKeywords d ks 0) \<in> set (collectSuggestions d categoryKeywords)"
    by (force simp: collectSuggestions_eq)
  then show "c \<in> set (map fst (collectSuggestions d categoryKeywords))" by force
qed

lemma distinct_collect: "distinct (map fst (collectSuggestions d categoryKeywords))"
proof -
  have "map fst (collectSuggestions d categoryKeywords) =
      map fst (filter (\<lambda>(c, ks). scoreKeywords d ks 0 > 0) categoryKeywords)"
    by (simp add: collectSuggestions_eq case_prod_unfold comp_def)
  then show ?thesis
    using distinct_map_filter [OF distinct_table] by simp
qed

lemma suggestions_sorted:
  "sorted_wrt (\<lambda>a b. categoryScore d a \<ge> categoryScore d b)
     (map fst (sortByScore (collectSuggestions d categoryKeywords)))"
proof -
  let ?xs = "sortByScore (collectSuggestions d categoryKeywords)"
  have "sorted_wrt (\<lambda>a b. snd a \<ge> snd b) ?xs" by (rule sorted_sortByScore)
  moreover have "snd p = categoryScore d (fst p)" if "p \<in> set ?xs" for p
    using that collect_score(1) [of "fst p" "snd p" d] by (simp add: set_sortByScore)
  ultimately have "sorted_wrt (\<lambda>a b. categoryScore d (fst a) \<ge> categoryScore d (fst b)) ?xs"
    by (auto intro: sorted_wrt_mono_rel [rotated])
  then show ?thesis by (simp add: sorted_wrt_map)
qed


lemma suggestions_long:
  "2 \<le> length s \<Longrightarrow>
   getSuggestedCategories s =
     take 3 (map fst (sortByScore (collectSuggestions (toLowerCase s) categoryKeywords)))"
  by (auto simp: getSuggestedCategories_def Let_def take_map)

lemma suggestions_short:
  "length s < 2 \<Longrightarrow> getSuggestedCategories s = map fst categoryKeywords"
  by (auto simp: getSuggestedCategories_def)

text \<open>
  Claim C7, as stated, fails on an input shorter than two characters: the guard at the
  head of \<^verbatim>\<open>getSuggestedCategories\<close> returns all eight categories.
\<close>

theorem getSuggestedCategories_short_counterexample: "\<not> length (getSuggestedCategories ''a'') \<le> 3"
  by (simp add: suggestions_short table_keys)

text \<open>
  Claim C7, amended. For an input of at least two characters the result has at most
  three names, in descending order of score. For a shorter input, the empty one
  included, it is the eight categories in the order of the table.
\<close>

theorem getSuggestedCategories_cap:
  "(2 \<le> length s \<longrightarrow>
      length (getSuggestedCategories s) \<le> 3
      \<and> sorted_wrt (\<lambda>a b. categoryScore (toLowerCase s) a \<ge> categoryScore (toLowerCase s) b)
            (getSuggestedCategories s))
   \<and> (length s < 2 \<longrightarrow>
      getSuggestedCategories s =
        [''Food & Dining'', ''Groceries'', ''Transportation'', ''Entertainment'',
         ''Shopping'', ''Utilities'', ''Healthcare'', ''Other''])"
proof (intro conjI impI)
  assume "2 \<le> length s"
  note eq = suggestions_long [OF this]
  show "length (getSuggestedCategories s) \<le> 3" by (simp add: eq)
  show "sorted_wrt (\<lambda>a b. categoryScore (toLowerCase s) a \<ge> categoryScore (toLowerCase s) b)
            (getSuggestedCategories s)"
    unfolding eq by (rule sorted_wrt_take) (rule suggestions_sorted)
next
  assume "length s < 2"
  then show "getSuggestedCategories s =
        [''Food & Dining'', ''Groceries'', ''Transportation'', ''Entertainment'',
         ''Shopping'', ''Utilities'', ''Healthcare'', ''Other'']"
    by (simp add: suggestions_short table_keys)
qed

lemma eval_gas: "getSuggestedCategories ''Gas bill'' = [''Utilities'', ''Transportation'']"
  by (simp add: suggestions_long categoryKeywords_def toLowerCase_def char_eval Let_def)

theorem getSuggestedCategories_cap_witness:
  "length (getSuggestedCategories ''Gas bill'') \<le> 3
   \<and> getSuggestedCategories ''Gas bill'' = [''Utilities'', ''Transportation'']
   \<and> length (getSuggestedCategories []) = 8"
  using getSuggestedCategories_cap [of "''Gas bill''"] getSuggestedCategories_cap [of "[]"] eval_gas
  by simp

text \<open>
  Claim C8. For an input of at least two characters: the score of a category is the sum
  of the lengths of its keywords that occur in the lower-cased input; the result is the
  first three entries of a list that holds each category of positive score once, in
  descending order of score; so every name in it is one of the eight categories and has
  a positive score, the result is in descending order of score, and it has at most
  three entries.
\<close>

theorem getSuggestedCategories_scores:
  assumes "2 \<le> length s"
  shows "(\<forall>c. categoryScore (toLowerCase s) c =
            sum_list (map length (filter (\<lambda>k. includes_str (toLowerCase s) (toLowerCase k))
                                         (keywordsOf c))))
    \<and> (\<exists>xs. getSuggestedCategories s = take 3 xs \<and> distinct xs
           \<and> set xs = {c \<in> set (map fst categoryKeywords). 0 < categoryScore (toLowerCase s) c}
           \<and> sorted_wrt (\<lambda>a b. categoryScore (toLowerCase s) a \<ge> categoryScore (toLowerCase s) b) xs)
    \<and> (\<forall>c\<in>set (getSuggestedCategories s).
           c \<in> {''Food & Dining'', ''Groceries'', ''Transportation'', ''Entertainment'',
                 ''Shopping'', ''Utilities'', ''Healthcare'', ''Other''}
           \<and> 0 < categoryScore (toLowerCase s) c)
    \<and> sorted_wrt (\<lambda>a b. categoryScore (toLowerCase s) a \<ge> categoryScore (toLowerCase s) b)
         (getSuggestedCategories s)
    \<and> length (getSuggestedCategories s) \<le> 3"
proof -
  let ?d = "toLowerCase s"
  let ?xs = "map fst (sortByScore (collectSuggestions ?d categoryKeywords))"
  note eq = suggestions_long [OF assms]
  have score: "\<forall>c. categoryScore ?d c =
      sum_list (map length (filter (\<lambda>k. includes_str ?d (toLowerCase k)) (keywordsOf c)))"
    by (simp add: categoryScore_def scoreKeywords_sum)
  have dist: "distinct ?xs"
    by (simp add: distinct_sortByScore distinct_collect)
  have set_xs: "set ?xs = {c \<in> set (map fst categoryKeywords). 0 < categoryScore ?d c}"
    using collect_keys [of ?d] by (simp add: set_sortByScore)
  have sorted_xs: "sorted_wrt (\<lambda>a b. categoryScore ?d a \<ge> categoryScore ?d b) ?xs"
    by (rule suggestions_sorted)
  have ex: "\<exists>xs. getSuggestedCategories s = take 3 xs \<and> distinct xs
           \<and> set xs = {c \<in> set (map fst categoryKeywords). 0 < categoryScore ?d c}
           \<and> sorted_wrt (\<lambda>a b. categoryScore ?d a \<ge> categoryScore ?d b) xs"
    by (intro exI [of _ ?xs] conjI eq dist set_xs sorted_xs)
  have "set (getSuggestedCategories s) \<subseteq> set ?xs"
    unfolding eq by (rule set_take_subset)
  then have "\<forall>c\<in>set (getSuggestedCategories s).
           c \<in> set (map fst categoryKeywords) \<and> 0 < categoryScore ?d c"
    unfolding set_xs by blast
  then have mem: "\<forall>c\<in>set (getSuggestedCategories s).
           c \<in> {''Food & Dining'', ''Groceries'', ''Transportation'', ''Entertainment'',
                 ''Shopping'', ''Utilities'', ''Healthcare'', ''Other''}
           \<and> 0 < categoryScore ?d c"
    unfolding table_keys by simp
  have sorted_res: "sorted_wrt (\<lambda>a b. categoryScore ?d a \<ge> categoryScore ?d b)
         (getSuggestedCategories s)"
    unfolding eq by (rule sorted_wrt_take) (rule sorted_xs)
  have len: "length (getSuggestedCategories s) \<le> 3" by (simp add: eq)
  show ?thesis by (intro conjI score ex mem sorted_res len)
qed

lemma eval_coffee:
  "getSuggestedCategories ''coffee shopping bill'' = [''Groceries'', ''Shopping'', ''Food & Dining'']"
  by (simp add: suggestions_long categoryKeywords_def toLowerCase_def char_eval Let_def)

theorem getSuggestedCategories_scores_witness:
  "getSuggestedCategories ''coffee shopping bill'' = [''Groceries'', ''Shopping'', ''Food & Dining'']
   \<and> length (getSuggestedCategories ''coffee shopping bill'') \<le> 3
   \<and> categoryScore ''coffee shopping bill'' ''Utilities'' = 4"
proof -
  have "2 \<le> length ''coffee shopping bill''" by simp
  from getSuggestedCategories_scores [OF this] have
    "length (getSuggestedCategories ''coffee shopping bill'') \<le> 3" by blast
  moreover have "categoryScore ''coffee shopping bill'' ''Utilities'' = 4"
    by (simp add: categoryScore_def keywordsOf_def categoryKeywords_def toLowerCase_def char_eval)
  ultimately show ?thesis using eval_coffee by simp
qed

section \<open>Properties of the parser\<close>

lemmas regex_eval = match1_def exec_def test_def replaceFirst_def replaceAll_def
  oneOf_def Opt_def Plus_def litMatches_def number_def currencyWords_def

lemmas parser_eval = amountPatterns_def stripPatterns_def leadingConnector_def whiteSpaceRun_def
  leadingAmount_def stopWords_def tryPattern_def parseFloat_def toNumber_def digitValue_def
  stripText_def wordsOf_def extractDescription_def capitalize_def trim_def toLowerCase_def

lemma findAmount_find:
  "findAmount ps n =
     (case List.find (\<lambda>p. tryPattern p n \<noteq> None) ps of
        None \<Rightarrow> None | Some p \<Rightarrow> tryPattern p n)"
  by (induction ps) (auto split: option.splits)

lemma findAmount_None_iff:
  "findAmount ps n = None \<longleftrightarrow> (\<forall>p\<in>set ps. tryPattern p n = None)"
  by (induction ps) (auto split: option.splits)

lemma findAmount_Some_iff:
  "findAmount ps n = Some a \<longleftrightarrow>
     (\<exists>i<length ps. tryPattern (ps ! i) n = Some a \<and> (\<forall>j<i. tryPattern (ps ! j) n = None))"
proof (induction ps)
  case Nil
  then show ?case by simp
next
  case (Cons p ps)
  show ?case
  proof (cases "tryPattern p n")
    case None
    have "(\<exists>i<length (p # ps). tryPattern ((p # ps) ! i) n = Some a
             \<and> (\<forall>j<i. tryPattern ((p # ps) ! j) n = None))
        \<longleftrightarrow> (\<exists>i<length ps. tryPattern (ps ! i) n = Some a
             \<and> (\<forall>j<i. tryPattern (ps ! j) n = None))" (is "?L \<longleftrightarrow> ?R")
    proof
      assume ?L
      then obtain i where i: "i < length (p # ps)" "tryPattern ((p # ps) ! i) n = Some a"
        "\<forall>j<i. tryPattern ((p # ps) ! j) n = None" by blast
      with None obtain k where k: "i = Suc k" by (cases i) auto
      have "\<forall>j<k. tryPattern (ps ! j) n = None"
      proof (intro allI impI)
        fix j assume "j < k"
        then have "Suc j < i" using k by simp
        with i(3) have "tryPattern ((p # ps) ! Suc j) n = None" by blast
        then show "tryPattern (ps ! j) n = None" by simp
      qed
      with i k show ?R by auto
    next
      assume ?R
      then obtain i where i: "i < length ps" "tryPattern (ps ! i) n = Some a"
        "\<forall>j<i. tryPattern (ps ! j) n = None" by blast
      have "\<forall>j<Suc i. tryPattern ((p # ps) ! j) n = None"
        using None i(3) by (auto simp: less_Suc_eq_0_disj)
      with i show ?L by (intro exI [of _ "Suc i"]) auto
    qed
    with None Cons show ?thesis by simp
  next
    case (Some a')
    have "(\<exists>i<length (p # ps). tryPattern ((p # ps) ! i) n = Some a
             \<and> (\<forall>j<i. tryPattern ((p # ps) ! j) n = None)) \<longleftrightarrow> a' = a" (is "?L \<longleftrightarrow> _")
    proof
      assume ?L
      then obtain i where i: "i < length (p # ps)" "tryPattern ((p # ps) ! i) n = Some a"
        "\<forall>j<i. tryPattern ((p # ps) ! j) n = None" by blast
      have "i = 0"
      proof (rule ccontr)
        assume "i \<noteq> 0"
        then have "0 < i" by simp
        with i(3) have "tryPattern ((p # ps) ! 0) n = None" by blast
        with Some show False by simp
      qed
      with i(2) Some show "a' = a" by simp
    next
      assume "a' = a"
      with Some show ?L by (intro exI [of _ 0]) simp
    qed
    with Some show ?thesis by simp
  qed
qed

lemma tryPattern_Some_iff:
  "tryPattern p n = Some a \<longleftrightarrow>
     (\<exists>m1. match1 p n = Some m1 \<and> a = parseFloat m1 \<and> \<not> isNaN a \<and> num_gt a 0)"
  by (auto simp: tryPattern_def Let_def split: option.splits)

lemma tryPattern_truthy: "tryPattern p n = Some a \<Longrightarrow> truthy (JNum a)"
  by (cases a) (auto simp: tryPattern_Some_iff)

lemma findAmount_truthy: "findAmount ps n = Some a \<Longrightarrow> truthy (JNum a)"
  by (auto simp: findAmount_Some_iff dest: tryPattern_truthy)

lemma findAmount_empty: "findAmount amountPatterns [] = None"
  by (simp add: parser_eval regex_eval)

lemma parseVoiceInput_string:
  "parseVoiceInput env (JStr s) =
     (case findAmount amountPatterns (trim (toLowerCase s)) of
        None \<Rightarrow> None
      | Some a \<Rightarrow> Some \<lparr>amount = a, description = extractDescription s,
                         date = Some (inferDate env (trim (toLowerCase s)))\<rparr>)"
proof (cases "s = []")
  case True
  then show ?thesis
    by (simp add: parseVoiceInput_def findAmount_empty trim_def toLowerCase_def)
next
  case False
  then show ?thesis
    by (auto simp: parseVoiceInput_def Let_def dest: findAmount_truthy split: option.splits)
qed

lemma parseVoiceInput_non_string:
  "typeof v \<noteq> TString \<Longrightarrow> parseVoiceInput env v = None"
  by (simp add: parseVoiceInput_def)

text \<open>
  Claim C9. For an argument that is not a string (\<^verbatim>\<open>null\<close>,
  \<^verbatim>\<open>undefined\<close>, a number, a boolean, an object), \<^verbatim>\<open>parseVoiceInput\<close>
  returns \<^verbatim>\<open>null\<close> and \<^verbatim>\<open>categorizeExpense\<close> returns
  \<^verbatim>\<open>Other\<close>; both are total, so neither raises.
\<close>

theorem malformed_input_fallback:
  "typeof v \<noteq> TString \<longrightarrow> parseVoiceInput env v = None \<and> categorizeExpense v = ''Other''"
  by (simp add: parseVoiceInput_def categorizeExpense_def)

theorem malformed_input_fallback_witness:
  "parseVoiceInput \<lparr>new_Date = 0, Date_now = 0, timeZone = makeZone 0 0 0\<rparr> JNull = None
   \<and> categorizeExpense JNull = ''Other''
   \<and> parseVoiceInput \<lparr>new_Date = 0, Date_now = 0, timeZone = makeZone 0 0 0\<rparr> JUndefined = None
   \<and> categorizeExpense JUndefined = ''Other''
   \<and> parseVoiceInput \<lparr>new_Date = 0, Date_now = 0, timeZone = makeZone 0 0 0\<rparr> (JNum (Fin 25)) = None
   \<and> categorizeExpense (JNum (Fin 25)) = ''Other''
   \<and> parseVoiceInput \<lparr>new_Date = 0, Date_now = 0, timeZone = makeZone 0 0 0\<rparr> (JObj JUndefined JUndefined) = None
   \<and> categorizeExpense (JObj JUndefined JUndefined) = ''Other''"
  using malformed_input_fallback [of JNull] malformed_input_fallback [of JUndefined]
    malformed_input_fallback [of "JNum (Fin 25)"]
    malformed_input_fallback [of "JObj JUndefined JUndefined"]
  by simp


lemma upperCaseOf_head:
  "\<exists>u us. upperCaseOf c = u # us
     \<and> \<not> (97 \<le> u \<and> u \<le> 122) \<and> u \<noteq> 181 \<and> \<not> (223 \<le> u \<and> u \<le> 255 \<and> u \<noteq> 247)"
proof -
  define n :: nat where "n = of_char c"
  have "n < 256" by (simp add: n_def)
  then show ?thesis
    unfolding upperCaseOf_def Let_def n_def [symmetric] by (simp; arith)
qed

lemma capitalize_Cons: "capitalize (c # cs) = upperCaseOf c @ units cs"
  by (simp add: capitalize_def toUpperCase_def)

lemma length_capitalize: "length d \<le> length (capitalize d)"
proof (cases d)
  case Nil
  then show ?thesis by simp
next
  case (Cons c cs)
  obtain u us where "upperCaseOf c = u # us" using upperCaseOf_head [of c] by blast
  then show ?thesis by (simp add: Cons capitalize_Cons units_def)
qed

lemma capitalize_head:
  assumes "d \<noteq> []"
  shows "\<exists>u us. capitalize d = u # us
     \<and> \<not> (97 \<le> u \<and> u \<le> 122) \<and> u \<noteq> 181 \<and> \<not> (223 \<le> u \<and> u \<le> 255 \<and> u \<noteq> 247)"
proof -
  from assms obtain c cs where d: "d = c # cs" by (cases d) auto
  from upperCaseOf_head [of c] obtain u us where
    "upperCaseOf c = u # us"
    "\<not> (97 \<le> u \<and> u \<le> 122) \<and> u \<noteq> 181 \<and> \<not> (223 \<le> u \<and> u \<le> 255 \<and> u \<noteq> 247)"
    by blast
  then show ?thesis
    by (intro exI [of _ u] exI [of _ "us @ units cs"]) (simp add: d capitalize_Cons)
qed

lemma extractDescription_eq:
  "extractDescription s =
     capitalize (if 2 \<le> length (stripText s) then stripText s
                 else if 2 \<le> length (wordsOf s) then wordsOf s
                 else ''Expense'')"
  by (simp add: extractDescription_def Let_def not_less [symmetric])

lemma length_extractDescription: "2 \<le> length (extractDescription s)"
proof -
  let ?d = "if 2 \<le> length (stripText s) then stripText s
            else if 2 \<le> length (wordsOf s) then wordsOf s else ''Expense''"
  have "2 \<le> length ?d" by simp
  with length_capitalize [of ?d] show ?thesis
    unfolding extractDescription_eq by linarith
qed

lemma zone_cases:
  obtains ob oa T where "Rep_zone z = (ob, oa, T)"
    and "ob < oa \<longrightarrow> (T + ob) mod msPerDay + (oa - ob) \<le> 9 * 60 * 60 * 1000"
proof -
  obtain ob oa T where r: "Rep_zone z = (ob, oa, T)" by (cases "Rep_zone z") auto
  with Rep_zone [of z] have
    "ob < oa \<longrightarrow> (T + ob) mod msPerDay + (oa - ob) \<le> 9 * 60 * 60 * 1000" by simp
  with r show thesis by (rule that)
qed

lemma LocalTime_UTC:
  assumes "9 * 60 * 60 * 1000 \<le> \<tau>" and "\<tau> < msPerDay"
  shows "LocalTime z (UTC z (day * msPerDay + \<tau>)) = day * msPerDay + \<tau>"
proof -
  obtain ob oa T where r: "Rep_zone z = (ob, oa, T)"
    and inv: "ob < oa \<longrightarrow> (T + ob) mod msPerDay + (oa - ob) \<le> 9 * 60 * 60 * 1000"
    by (rule zone_cases)
  define tl where "tl = day * msPerDay + \<tau>"
  have no_gap: "\<not> (T \<le> tl - ob \<and> tl - oa < T)"
  proof
    assume gap: "T \<le> tl - ob \<and> tl - oa < T"
    then have lt: "ob < oa" by arith
    define g where "g = T + ob"
    define q where "q = g div msPerDay"
    define m where "m = g mod msPerDay"
    have g: "g = q * msPerDay + m" and m: "0 \<le> m"
      by (simp_all add: q_def m_def msPerDay_def)
    from inv lt have i: "m + (oa - ob) \<le> 9 * 60 * 60 * 1000"
      by (simp add: m_def g_def)
    from gap have "g \<le> tl" "tl < g + (oa - ob)" by (simp_all add: g_def)
    with g have a: "q * msPerDay + m \<le> day * msPerDay + \<tau>"
      and b: "day * msPerDay + \<tau> < q * msPerDay + m + (oa - ob)"
      by (simp_all add: tl_def)
    from a m assms(2) have "q * msPerDay < (day + 1) * msPerDay"
      by (simp add: algebra_simps)
    then have "q < day + 1" by (simp add: msPerDay_def)
    moreover from b i assms(1) have "day * msPerDay < q * msPerDay"
      by simp
    then have "day < q" by (simp add: msPerDay_def)
    ultimately show False by simp
  qed
  show ?thesis
    using no_gap
    by (auto simp: LocalTime_def LocalTZA.rep_eq UTC.rep_eq r tl_def [symmetric])
qed

lemma timeWithinDay_setHours:
  "9 \<le> h \<Longrightarrow> h < 24 \<Longrightarrow> timeWithinDay env (setHours env t h 0 0 0) = h * 3600000"
proof -
  assume h: "9 \<le> h" "h < 24"
  let ?day = "LocalTime (timeZone env) t div msPerDay"
  have "setHours env t h 0 0 0 = UTC (timeZone env) (?day * msPerDay + h * 3600000)"
    by (simp add: setHours_def Let_def mult.commute)
  moreover have "LocalTime (timeZone env) (UTC (timeZone env) (?day * msPerDay + h * 3600000))
      = ?day * msPerDay + h * 3600000"
    using h by (intro LocalTime_UTC) (simp_all add: msPerDay_def)
  ultimately show ?thesis
    using h by (simp add: timeWithinDay_def msPerDay_def)
qed

lemma clock_setHours:
  assumes "9 \<le> h" "h < 24"
  shows "getHours env (setHours env t h 0 0 0) = h"
    and "getMinutes env (setHours env t h 0 0 0) = 0"
    and "getSeconds env (setHours env t h 0 0 0) = 0"
    and "getMilliseconds env (setHours env t h 0 0 0) = 0"
  using assms
  by (simp_all add: getHours_def getMinutes_def getSeconds_def getMilliseconds_def
      timeWithinDay_setHours)

lemma timeWithinDay_yesterday:
  assumes "LocalTZA (timeZone env) (t - 24 * 60 * 60 * 1000) = LocalTZA (timeZone env) t"
  shows "timeWithinDay env (t - 24 * 60 * 60 * 1000) = timeWithinDay env t"
proof -
  have "t - 24 * 60 * 60 * 1000 + LocalTZA (timeZone env) t
      = (t + LocalTZA (timeZone env) t) + (- 1) * msPerDay"
    by (simp add: msPerDay_def)
  then show ?thesis
    unfolding timeWithinDay_def LocalTime_def assms by (metis mod_mult_self1)
qed

lemma parse_Some_iff:
  "parseVoiceInput env (JStr s) = Some r \<longleftrightarrow>
     (\<exists>a. findAmount amountPatterns (trim (toLowerCase s)) = Some a
          \<and> r = \<lparr>amount = a, description = extractDescription s,
                   date = Some (inferDate env (trim (toLowerCase s)))\<rparr>)"
  by (auto simp: parseVoiceInput_string split: option.splits)

lemma eval_spent_norm:
  "trim (toLowerCase ''Spent 25 dollars on coffee this morning'')
     = ''spent 25 dollars on coffee this morning''"
  by (simp add: trim_def toLowerCase_def char_eval)

lemma eval_spent_amount:
  "findAmount amountPatterns ''spent 25 dollars on coffee this morning'' = Some (Fin 25)"
  by (simp add: parser_eval regex_eval char_eval)

lemma eval_spent_description:
  "extractDescription ''Spent 25 dollars on coffee this morning'' = units ''Coffee ths mornng''"
  by (simp add: parser_eval regex_eval char_eval)

text \<open>
  Claim C5. \<^verbatim>\<open>Spent 25 dollars on coffee this morning\<close> parses to the amount 25
  and the description \<^verbatim>\<open>Coffee ths mornng\<close> (the first \<^verbatim>\<open>replace\<close>
  also removes every letter \<^verbatim>\<open>i\<close>), which starts with \<^verbatim>\<open>Coffee\<close>
  and holds none of \<^verbatim>\<open>spent\<close>, \<^verbatim>\<open>dollars\<close>,
  \<^verbatim>\<open>this morning\<close>; the date is \<^verbatim>\<open>new Date()\<close> set to
  09:00:00.000 local time.
\<close>

theorem parseVoiceInput_spent_25_dollars:
  "\<exists>r d text. parseVoiceInput env (JStr ''Spent 25 dollars on coffee this morning'') = Some r
     \<and> amount r = Fin 25
     \<and> description r = units text
     \<and> text = ''Coffee ths mornng''
     \<and> startsWith text ''Coffee''
     \<and> \<not> includes_str (toLowerCase text) ''spent''
     \<and> \<not> includes_str (toLowerCase text) ''dollars''
     \<and> \<not> includes_str (toLowerCase text) ''this morning''
     \<and> date r = Some d
     \<and> d = setHours env (new_Date env) 9 0 0 0
     \<and> getHours env d = 9 \<and> getMinutes env d = 0
     \<and> getSeconds env d = 0 \<and> getMilliseconds env d = 0"
proof -
  let ?d = "setHours env (new_Date env) 9 0 0 0"
  let ?r = "\<lparr>amount = Fin 25, description = units ''Coffee ths mornng'', date = Some ?d\<rparr>"
  have "inferDate env ''spent 25 dollars on coffee this morning'' = ?d"
    by (simp add: inferDate_def)
  then have p: "parseVoiceInput env (JStr ''Spent 25 dollars on coffee this morning'') = Some ?r"
    by (simp add: parse_Some_iff eval_spent_norm eval_spent_amount eval_spent_description)
  have w: "startsWith ''Coffee ths mornng'' ''Coffee''"
      "\<not> includes_str (toLowerCase ''Coffee ths mornng'') ''spent''"
      "\<not> includes_str (toLowerCase ''Coffee ths mornng'') ''dollars''"
      "\<not> includes_str (toLowerCase ''Coffee ths mornng'') ''this morning''"
    by (simp_all add: toLowerCase_def char_eval)
  have c: "getHours env ?d = 9" "getMinutes env ?d = 0" "getSeconds env ?d = 0"
      "getMilliseconds env ?d = 0"
    by (simp_all add: clock_setHours)
  show ?thesis
    by (intro exI [of _ ?r] exI [of _ ?d] exI [of _ "''Coffee ths mornng''"]) (simp add: p w c)
qed

lemma fixed_zone: "Rep_zone (makeZone z z c) = (z, z, c)"
  by (simp add: makeZone.rep_eq)

text \<open>New York in 2024: five hours behind UTC until 10 March, 07:00 UTC, and four hours
  behind from then on.\<close>

lemma new_york_2024:
  "Rep_zone (makeZone (- 18000000) (- 14400000) 1710054000000)
     = (- 18000000, - 14400000, 1710054000000)"
  by (simp add: makeZone.rep_eq msPerDay_def)

theorem parseVoiceInput_spent_25_dollars_witness:
  "(\<exists>r. parseVoiceInput \<lparr>new_Date = 1700000000000, Date_now = 1700000000007, timeZone = makeZone (- 18000000) (- 18000000) 0\<rparr>
          (JStr ''Spent 25 dollars on coffee this morning'') = Some r
     \<and> amount r = Fin 25
     \<and> description r = units ''Coffee ths mornng''
     \<and> date r = Some 1699970400000)
   \<and> (\<exists>r. parseVoiceInput
            \<lparr>new_Date = 1710052200000, Date_now = 1710052200000,
             timeZone = makeZone (- 18000000) (- 14400000) 1710054000000\<rparr>
          (JStr ''Spent 25 dollars on coffee this morning'') = Some r
     \<and> amount r = Fin 25
     \<and> description r = units ''Coffee ths mornng''
     \<and> date r = Some 1710075600000)"
proof -
  let ?env = "\<lparr>new_Date = 1700000000000, Date_now = 1700000000007, timeZone = makeZone (- 18000000) (- 18000000) 0\<rparr>"
  let ?env' = "\<lparr>new_Date = 1710052200000, Date_now = 1710052200000,
             timeZone = makeZone (- 18000000) (- 14400000) 1710054000000\<rparr>"
  have "setHours ?env (new_Date ?env) 9 0 0 0 = 1699970400000"
    by (simp add: setHours_def msPerDay_def LocalTime_def LocalTZA.rep_eq UTC.rep_eq fixed_zone)
  with parseVoiceInput_spent_25_dollars [of ?env]
  have 1: "\<exists>r. parseVoiceInput ?env (JStr ''Spent 25 dollars on coffee this morning'') = Some r
     \<and> amount r = Fin 25
     \<and> description r = units ''Coffee ths mornng''
     \<and> date r = Some 1699970400000"
    by auto
  have "setHours ?env' (new_Date ?env') 9 0 0 0 = 1710075600000"
    by (simp add: setHours_def msPerDay_def LocalTime_def LocalTZA.rep_eq UTC.rep_eq
        new_york_2024)
  with parseVoiceInput_spent_25_dollars [of ?env']
  have 2: "\<exists>r. parseVoiceInput ?env' (JStr ''Spent 25 dollars on coffee this morning'') = Some r
     \<and> amount r = Fin 25
     \<and> description r = units ''Coffee ths mornng''
     \<and> date r = Some 1710075600000"
    by auto
  show ?thesis by (rule conjI [OF 1 2])
qed

lemma inferDate_yesterday:
  "includes_str n ''yesterday'' \<Longrightarrow> inferDate env n = Date_now env - 24 * 60 * 60 * 1000"
  by (simp add: inferDate_def)

lemma eval_paid_norm:
  "trim (toLowerCase ''Paid $30 for gas yesterday'') = ''paid $30 for gas yesterday''"
  by (simp add: trim_def toLowerCase_def char_eval)

lemma eval_paid_amount:
  "findAmount amountPatterns ''paid $30 for gas yesterday'' = Some (Fin 30)"
  by (simp add: parser_eval regex_eval char_eval)

lemma eval_paid_description:
  "extractDescription ''Paid $30 for gas yesterday'' = units ''Gas''"
  by (simp add: parser_eval regex_eval char_eval)

lemma eval_paid_parse:
  "parseVoiceInput env (JStr ''Paid $30 for gas yesterday'')
     = Some \<lparr>amount = Fin 30, description = units ''Gas'',
             date = Some (Date_now env - 24 * 60 * 60 * 1000)\<rparr>"
  by (simp add: parse_Some_iff eval_paid_norm eval_paid_amount eval_paid_description
      inferDate_def)

text \<open>
  Claim C6, as stated, fails across a daylight-saving change. In New York the clocks
  went forward on 10 March 2024 at 07:00 UTC. At 18:00 UTC of that day the local time is
  14:00; \<^verbatim>\<open>Paid $30 for gas yesterday\<close> gets the date 24 hours earlier, whose
  local clock time is 13:00.
\<close>

theorem parseVoiceInput_yesterday_clock_counterexample:
  "includes_str (trim (toLowerCase ''Paid $30 for gas yesterday'')) ''yesterday''
   \<and> (\<exists>r d. parseVoiceInput
               \<lparr>new_Date = 1710093600000, Date_now = 1710093600000,
                timeZone = makeZone (- 18000000) (- 14400000) 1710054000000\<rparr>
               (JStr ''Paid $30 for gas yesterday'') = Some r
         \<and> date r = Some d
         \<and> d = 1710093600000 - 24 * 60 * 60 * 1000
         \<and> getHours \<lparr>new_Date = 1710093600000, Date_now = 1710093600000,
                      timeZone = makeZone (- 18000000) (- 14400000) 1710054000000\<rparr>
              1710093600000 = 14
         \<and> getHours \<lparr>new_Date = 1710093600000, Date_now = 1710093600000,
                      timeZone = makeZone (- 18000000) (- 14400000) 1710054000000\<rparr>
              d = 13
         \<and> timeWithinDay \<lparr>new_Date = 1710093600000, Date_now = 1710093600000,
                      timeZone = makeZone (- 18000000) (- 14400000) 1710054000000\<rparr> d
           \<noteq> timeWithinDay \<lparr>new_Date = 1710093600000, Date_now = 1710093600000,
                      timeZone = makeZone (- 18000000) (- 14400000) 1710054000000\<rparr>
                 1710093600000)"
proof -
  let ?env = "\<lparr>new_Date = 1710093600000, Date_now = 1710093600000,
                timeZone = makeZone (- 18000000) (- 14400000) 1710054000000\<rparr>"
  note z = new_york_2024
  have y: "includes_str (trim (toLowerCase ''Paid $30 for gas yesterday'')) ''yesterday''"
    unfolding eval_paid_norm by simp
  have now: "timeWithinDay ?env 1710093600000 = 14 * 3600000"
    by (simp add: timeWithinDay_def LocalTime_def LocalTZA.rep_eq z msPerDay_def)
  have before: "timeWithinDay ?env (1710093600000 - 24 * 60 * 60 * 1000) = 13 * 3600000"
    by (simp add: timeWithinDay_def LocalTime_def LocalTZA.rep_eq z msPerDay_def)
  have "getHours ?env 1710093600000 = 14"
    and "getHours ?env (1710093600000 - 24 * 60 * 60 * 1000) = 13"
    and "timeWithinDay ?env (1710093600000 - 24 * 60 * 60 * 1000)
           \<noteq> timeWithinDay ?env 1710093600000"
    unfolding getHours_def now before by simp_all
  with y eval_paid_parse [of ?env] show ?thesis by simp
qed

text \<open>
  Claim C6, amended. When the normalized text holds \<^verbatim>\<open>yesterday\<close> and the parse
  succeeds, the date is \<^verbatim>\<open>Date.now()\<close> minus 24 hours, whatever time-of-day
  phrase the text holds as well. Its local clock time is that of the reading moved by
  the difference of the zone's offsets at the two instants: the same clock time when the
  offset is the same at both, as it is but across a daylight-saving change.
  \<^verbatim>\<open>Paid $30 for gas yesterday\<close> gives the amount 30 and that date.
\<close>

theorem parseVoiceInput_yesterday:
  "(includes_str (trim (toLowerCase s)) ''yesterday'' \<and> parseVoiceInput env (JStr s) = Some r
      \<longrightarrow> date r = Some (Date_now env - 24 * 60 * 60 * 1000)
          \<and> timeWithinDay env (Date_now env - 24 * 60 * 60 * 1000)
              = (timeWithinDay env (Date_now env)
                 + (LocalTZA (timeZone env) (Date_now env - 24 * 60 * 60 * 1000)
                    - LocalTZA (timeZone env) (Date_now env))) mod msPerDay
          \<and> (LocalTZA (timeZone env) (Date_now env - 24 * 60 * 60 * 1000)
                = LocalTZA (timeZone env) (Date_now env)
              \<longrightarrow> timeWithinDay env (Date_now env - 24 * 60 * 60 * 1000)
                    = timeWithinDay env (Date_now env)))
   \<and> parseVoiceInput env (JStr ''Paid $30 for gas yesterday'')
       = Some \<lparr>amount = Fin 30, description = units ''Gas'',
               date = Some (Date_now env - 24 * 60 * 60 * 1000)\<rparr>"
proof -
  let ?now = "Date_now env"
  let ?z = "timeZone env"
  have "date r = Some (?now - 24 * 60 * 60 * 1000)"
    if "includes_str (trim (toLowerCase s)) ''yesterday''"
      and "parseVoiceInput env (JStr s) = Some r"
    using that by (auto simp: parse_Some_iff inferDate_yesterday)
  moreover have "timeWithinDay env (?now - 24 * 60 * 60 * 1000)
      = (timeWithinDay env ?now
         + (LocalTZA ?z (?now - 24 * 60 * 60 * 1000) - LocalTZA ?z ?now)) mod msPerDay"
  proof -
    have "?now - 24 * 60 * 60 * 1000 + LocalTZA ?z (?now - 24 * 60 * 60 * 1000)
        = (?now + LocalTZA ?z ?now)
          + (LocalTZA ?z (?now - 24 * 60 * 60 * 1000) - LocalTZA ?z ?now)
          + (- 1) * msPerDay"
      by (simp add: msPerDay_def)
    then have "timeWithinDay env (?now - 24 * 60 * 60 * 1000)
        = ((?now + LocalTZA ?z ?now)
           + (LocalTZA ?z (?now - 24 * 60 * 60 * 1000) - LocalTZA ?z ?now)) mod msPerDay"
      unfolding timeWithinDay_def LocalTime_def by (metis mod_mult_self1)
    also have "\<dots> = (timeWithinDay env ?now
         + (LocalTZA ?z (?now - 24 * 60 * 60 * 1000) - LocalTZA ?z ?now)) mod msPerDay"
      unfolding timeWithinDay_def LocalTime_def by (simp add: mod_add_left_eq)
    finally show ?thesis .
  qed
  moreover have "timeWithinDay env (?now - 24 * 60 * 60 * 1000) = timeWithinDay env ?now"
    if "LocalTZA ?z (?now - 24 * 60 * 60 * 1000) = LocalTZA ?z ?now"
    using that by (rule timeWithinDay_yesterday)
  ultimately show ?thesis
    using eval_paid_parse [of env] by blast
qed

lemma eval_both_norm:
  "trim (toLowerCase ''Paid 5 bucks yesterday this morning'')
     = ''paid 5 bucks yesterday this morning''"
  by (simp add: trim_def toLowerCase_def char_eval)

lemma eval_both_amount:
  "findAmount amountPatterns ''paid 5 bucks yesterday this morning'' = Some (Fin 5)"
  by (simp add: parser_eval regex_eval char_eval)

theorem parseVoiceInput_yesterday_witness:
  "\<exists>r. parseVoiceInput \<lparr>new_Date = 1700000000000, Date_now = 1700000000007, timeZone = makeZone (- 18000000) (- 18000000) 0\<rparr>
          (JStr ''Paid 5 bucks yesterday this morning'') = Some r
     \<and> includes_str (trim (toLowerCase ''Paid 5 bucks yesterday this morning'')) ''this morning''
     \<and> date r = Some 1699913600007
     \<and> timeWithinDay \<lparr>new_Date = 1700000000000, Date_now = 1700000000007, timeZone = makeZone (- 18000000) (- 18000000) 0\<rparr> 1699913600007
         = timeWithinDay \<lparr>new_Date = 1700000000000, Date_now = 1700000000007, timeZone = makeZone (- 18000000) (- 18000000) 0\<rparr> 1700000000007"
proof -
  let ?env = "\<lparr>new_Date = 1700000000000, Date_now = 1700000000007, timeZone = makeZone (- 18000000) (- 18000000) 0\<rparr>"
  let ?s = "''Paid 5 bucks yesterday this morning''"
  have y: "includes_str (trim (toLowerCase ?s)) ''yesterday''"
    and m: "includes_str (trim (toLowerCase ?s)) ''this morning''"
    unfolding eval_both_norm by simp_all
  obtain r where r: "parseVoiceInput ?env (JStr ?s) = Some r"
    by (simp add: parse_Some_iff eval_both_norm eval_both_amount)
  have same: "LocalTZA (timeZone ?env) (Date_now ?env - 24 * 60 * 60 * 1000)
      = LocalTZA (timeZone ?env) (Date_now ?env)"
    by (simp add: LocalTZA.rep_eq fixed_zone)
  from parseVoiceInput_yesterday [of ?s ?env r] y r same
  have "date r = Some (Date_now ?env - 24 * 60 * 60 * 1000)"
    and "timeWithinDay ?env (Date_now ?env - 24 * 60 * 60 * 1000)
           = timeWithinDay ?env (Date_now ?env)"
    by blast+
  then have "date r = Some 1699913600007"
    and "timeWithinDay ?env 1699913600007 = timeWithinDay ?env 1700000000007"
    by simp_all
  with r m show ?thesis by blast
qed

lemma findAmount_positive: "findAmount ps n = Some a \<Longrightarrow> num_gt a 0"
  by (auto simp: findAmount_Some_iff tryPattern_Some_iff)

lemma eval_5if_norm: "trim (toLowerCase ''$5 if'') = ''$5 if''"
  by (simp add: trim_def toLowerCase_def char_eval)

lemma eval_5if_amount: "findAmount amountPatterns ''$5 if'' = Some (Fin 5)"
  by (simp add: parser_eval regex_eval char_eval)

lemma eval_5if_strip: "stripText ''$5 if'' = ''f''"
  by (simp add: parser_eval regex_eval char_eval)

lemma eval_5if_description: "extractDescription ''$5 if'' = units ''If''"
  by (simp add: parser_eval regex_eval char_eval)

text \<open>
  Claim C10, as stated, fails where the stripped text has fewer than two characters and
  the words of the original text have more: \<^verbatim>\<open>$5 if\<close> is stripped to
  \<^verbatim>\<open>f\<close>, and the description is \<^verbatim>\<open>If\<close>, not
  \<^verbatim>\<open>Expense\<close>.
\<close>

theorem parseVoiceInput_word_fallback_counterexample:
  "length (stripText ''$5 if'') < 2
   \<and> (\<exists>r. parseVoiceInput \<lparr>new_Date = 1700000000000, Date_now = 1700000000007,
                              timeZone = makeZone (- 18000000) (- 18000000) 0\<rparr> (JStr ''$5 if'') = Some r
          \<and> description r = units ''If'' \<and> description r \<noteq> units ''Expense'')"
  by (simp add: parse_Some_iff eval_5if_norm eval_5if_amount eval_5if_strip eval_5if_description
      units_def)

text \<open>
  Claim C10, amended. A result of \<^verbatim>\<open>parseVoiceInput\<close> has a positive amount, a
  description of at least two code units, and a date. The first code unit of the
  description is none of the characters that \<^verbatim>\<open>toUpperCase\<close> changes, the
  lower-case letters: not \<^verbatim>\<open>a\<close> to \<^verbatim>\<open>z\<close> (97 to 122), not the micro
  sign (181), and not one of 223 to 255, the division sign (247) apart.
  The description is the upper-case form of the first character of a text, followed by
  the rest of that text; the text is the stripped text, or the words of the original
  text when the stripped text has fewer than two characters, or \<^verbatim>\<open>Expense\<close>
  when both have.
\<close>

theorem parseVoiceInput_result_invariant:
  assumes "parseVoiceInput env v = Some r"
  shows "num_gt (amount r) 0
    \<and> 2 \<le> length (description r)
    \<and> (\<exists>u us. description r = u # us
          \<and> \<not> (97 \<le> u \<and> u \<le> 122) \<and> u \<noteq> 181 \<and> \<not> (223 \<le> u \<and> u \<le> 255 \<and> u \<noteq> 247))
    \<and> date r \<noteq> None
    \<and> (\<exists>s d. v = JStr s
          \<and> d = (if 2 \<le> length (stripText s) then stripText s
                  else if 2 \<le> length (wordsOf s) then wordsOf s
                  else ''Expense'')
          \<and> description r = toUpperCase (take 1 d) @ units (drop 1 d))"
proof -
  from assms obtain s where v: "v = JStr s"
    by (cases v) (simp_all add: parseVoiceInput_def)
  with assms obtain a where a: "findAmount amountPatterns (trim (toLowerCase s)) = Some a"
    and r: "r = \<lparr>amount = a, description = extractDescription s,
                   date = Some (inferDate env (trim (toLowerCase s)))\<rparr>"
    by (auto simp: parse_Some_iff)
  define d where "d = (if 2 \<le> length (stripText s) then stripText s
                  else if 2 \<le> length (wordsOf s) then wordsOf s
                  else ''Expense'')"
  have desc: "description r = capitalize d"
    by (simp add: r extractDescription_eq d_def)
  have "2 \<le> length d" by (simp add: d_def)
  then have "d \<noteq> []" by auto
  have "num_gt (amount r) 0"
    using findAmount_positive [OF a] by (simp add: r)
  moreover have "2 \<le> length (description r)"
    by (simp add: r length_extractDescription)
  moreover have "\<exists>u us. description r = u # us
          \<and> \<not> (97 \<le> u \<and> u \<le> 122) \<and> u \<noteq> 181 \<and> \<not> (223 \<le> u \<and> u \<le> 255 \<and> u \<noteq> 247)"
    unfolding desc using \<open>d \<noteq> []\<close> by (rule capitalize_head)
  moreover have "date r \<noteq> None" by (simp add: r)
  moreover have "\<exists>s d. v = JStr s
          \<and> d = (if 2 \<le> length (stripText s) then stripText s
                  else if 2 \<le> length (wordsOf s) then wordsOf s
                  else ''Expense'')
          \<and> description r = toUpperCase (take 1 d) @ units (drop 1 d)"
    using v desc unfolding capitalize_def d_def by blast
  ultimately show ?thesis by (intro conjI)
qed

lemma eval_5a_norm: "trim (toLowerCase ''$5 a'') = ''$5 a''"
  by (simp add: trim_def toLowerCase_def char_eval)

lemma eval_5a_amount: "findAmount amountPatterns ''$5 a'' = Some (Fin 5)"
  by (simp add: parser_eval regex_eval char_eval)

lemma eval_5a_description: "extractDescription ''$5 a'' = units ''Expense''"
  by (simp add: parser_eval regex_eval char_eval)

lemma eval_tea_norm: "trim (toLowerCase ''$5 tea'') = ''$5 tea''"
  by (simp add: trim_def toLowerCase_def char_eval)

lemma eval_tea_amount: "findAmount amountPatterns ''$5 tea'' = Some (Fin 5)"
  by (simp add: parser_eval regex_eval char_eval)

lemma eval_tea_description: "extractDescription ''$5 tea'' = units ''Tea''"
  by (simp add: parser_eval regex_eval char_eval)

lemma eval_ecole_norm:
  "trim (toLowerCase (''$5 '' @ [CHR 0xE9] @ ''cole'')) = ''$5 '' @ [CHR 0xE9] @ ''cole''"
  by (simp add: trim_def toLowerCase_def char_eval)

lemma eval_ecole_amount:
  "findAmount amountPatterns (''$5 '' @ [CHR 0xE9] @ ''cole'') = Some (Fin 5)"
  by (simp add: parser_eval regex_eval char_eval)

lemma eval_ecole_description:
  "extractDescription (''$5 '' @ [CHR 0xE9] @ ''cole'') = [0xC9, 99, 111, 108, 101]"
  by (simp add: parser_eval regex_eval char_eval)

lemma eval_ecole_parse:
  "\<exists>d. parseVoiceInput env (JStr (''$5 '' @ [CHR 0xE9] @ ''cole''))
     = Some \<lparr>amount = Fin 5, description = [0xC9, 99, 111, 108, 101], date = Some d\<rparr>"
  unfolding parse_Some_iff eval_ecole_norm eval_ecole_amount eval_ecole_description by simp

theorem parseVoiceInput_result_invariant_witness:
  "(\<exists>r. parseVoiceInput \<lparr>new_Date = 1700000000000, Date_now = 1700000000007, timeZone = makeZone (- 18000000) (- 18000000) 0\<rparr>
          (JStr ''$5 a'') = Some r
     \<and> num_gt (amount r) 0 \<and> 2 \<le> length (description r) \<and> date r \<noteq> None
     \<and> description r = units ''Expense'')
   \<and> (\<exists>r. parseVoiceInput \<lparr>new_Date = 1700000000000, Date_now = 1700000000007, timeZone = makeZone (- 18000000) (- 18000000) 0\<rparr>
          (JStr ''$5 tea'') = Some r
     \<and> num_gt (amount r) 0 \<and> 2 \<le> length (description r) \<and> date r \<noteq> None
     \<and> description r = units ''Tea'')
   \<and> (\<exists>r. parseVoiceInput \<lparr>new_Date = 1700000000000, Date_now = 1700000000007, timeZone = makeZone (- 18000000) (- 18000000) 0\<rparr>
          (JStr (''$5 '' @ [CHR 0xE9] @ ''cole'')) = Some r
     \<and> num_gt (amount r) 0 \<and> 2 \<le> length (description r) \<and> date r \<noteq> None
     \<and> description r = [0xC9, 99, 111, 108, 101])"
proof -
  let ?env = "\<lparr>new_Date = 1700000000000, Date_now = 1700000000007, timeZone = makeZone (- 18000000) (- 18000000) 0\<rparr>"
  obtain r where r: "parseVoiceInput ?env (JStr ''$5 a'') = Some r"
    and d: "description r = units ''Expense''"
    by (simp add: parse_Some_iff eval_5a_norm eval_5a_amount eval_5a_description)
  obtain r' where r': "parseVoiceInput ?env (JStr ''$5 tea'') = Some r'"
    and d': "description r' = units ''Tea''"
    by (simp add: parse_Some_iff eval_tea_norm eval_tea_amount eval_tea_description)
  obtain r'' where r'': "parseVoiceInput ?env (JStr (''$5 '' @ [CHR 0xE9] @ ''cole'')) = Some r''"
    and d'': "description r'' = [0xC9, 99, 111, 108, 101]"
    using eval_ecole_parse [of ?env] by force
  from parseVoiceInput_result_invariant [OF r] d r
  have 1: "\<exists>r. parseVoiceInput ?env (JStr ''$5 a'') = Some r
     \<and> num_gt (amount r) 0 \<and> 2 \<le> length (description r) \<and> date r \<noteq> None
     \<and> description r = units ''Expense''"
    by blast
  from parseVoiceInput_result_invariant [OF r'] d' r'
  have 2: "\<exists>r. parseVoiceInput ?env (JStr ''$5 tea'') = Some r
     \<and> num_gt (amount r) 0 \<and> 2 \<le> length (description r) \<and> date r \<noteq> None
     \<and> description r = units ''Tea''"
    by blast
  from parseVoiceInput_result_invariant [OF r''] d'' r''
  have 3: "\<exists>r. parseVoiceInput ?env (JStr (''$5 '' @ [CHR 0xE9] @ ''cole'')) = Some r
     \<and> num_gt (amount r) 0 \<and> 2 \<le> length (description r) \<and> date r \<noteq> None
     \<and> description r = [0xC9, 99, 111, 108, 101]"
    by blast
  show ?thesis by (rule conjI [OF 1 conjI [OF 2 3]])
qed

text \<open>
  Claim C3, amended. \<^verbatim>\<open>parseVoiceInput\<close> returns \<^verbatim>\<open>null\<close> exactly
  when no amount pattern gives a number; a pattern gives a number when it matches and
  \<^verbatim>\<open>parseFloat\<close> of its group is not \<^verbatim>\<open>NaN\<close> and is positive,
  \<^verbatim>\<open>Infinity\<close> included; and the amount of a result is the number of the first
  pattern of the list that gives one.
\<close>

theorem parseVoiceInput_first_amount:
  "(parseVoiceInput env (JStr s) = None \<longleftrightarrow>
      (\<forall>p\<in>set amountPatterns. tryPattern p (trim (toLowerCase s)) = None))
   \<and> (\<forall>a. tryPattern p n = Some a \<longleftrightarrow>
         (\<exists>m1. match1 p n = Some m1 \<and> a = parseFloat m1 \<and> \<not> isNaN a \<and> num_gt a 0))
   \<and> (\<forall>r. parseVoiceInput env (JStr s) = Some r \<longrightarrow>
         (\<exists>i<length amountPatterns.
             tryPattern (amountPatterns ! i) (trim (toLowerCase s)) = Some (amount r)
             \<and> (\<forall>j<i. tryPattern (amountPatterns ! j) (trim (toLowerCase s)) = None)))"
proof (intro conjI allI impI)
  show "parseVoiceInput env (JStr s) = None \<longleftrightarrow>
      (\<forall>p\<in>set amountPatterns. tryPattern p (trim (toLowerCase s)) = None)"
    by (simp add: parseVoiceInput_string findAmount_None_iff [symmetric] split: option.splits)
next
  fix a
  show "tryPattern p n = Some a \<longleftrightarrow>
         (\<exists>m1. match1 p n = Some m1 \<and> a = parseFloat m1 \<and> \<not> isNaN a \<and> num_gt a 0)"
    by (rule tryPattern_Some_iff)
next
  fix r assume "parseVoiceInput env (JStr s) = Some r"
  then have "findAmount amountPatterns (trim (toLowerCase s)) = Some (amount r)"
    by (auto simp: parse_Some_iff)
  then show "\<exists>i<length amountPatterns.
             tryPattern (amountPatterns ! i) (trim (toLowerCase s)) = Some (amount r)
             \<and> (\<forall>j<i. tryPattern (amountPatterns ! j) (trim (toLowerCase s)) = None)"
    by (simp add: findAmount_Some_iff)
qed

lemma eval_hello_norm: "trim (toLowerCase ''Hello there'') = ''hello there''"
  by (simp add: trim_def toLowerCase_def char_eval)

lemma eval_hello_none:
  "\<forall>p\<in>set amountPatterns. tryPattern p ''hello there'' = None"
  by (simp add: parser_eval regex_eval char_eval)

lemma eval_bucks_norm: "trim (toLowerCase ''Coffee 7 bucks $5'') = ''coffee 7 bucks $5''"
  by (simp add: trim_def toLowerCase_def char_eval)

lemma eval_bucks_tries:
  "tryPattern (amountPatterns ! 0) ''coffee 7 bucks $5'' = None"
  "tryPattern (amountPatterns ! 1) ''coffee 7 bucks $5'' = Some (Fin 5)"
  "tryPattern (amountPatterns ! 2) ''coffee 7 bucks $5'' = Some (Fin 7)"
  by (simp_all add: parser_eval regex_eval char_eval)

lemma eval_nbsp_norm:
  "trim (toLowerCase (''Spent'' @ [CHR 0xA0] @ ''5'')) = ''spent'' @ [CHR 0xA0] @ ''5''"
  by (simp add: trim_def toLowerCase_def char_eval)

lemma eval_nbsp_amount:
  "findAmount amountPatterns (''spent'' @ [CHR 0xA0] @ ''5'') = Some (Fin 5)"
  by (simp add: parser_eval regex_eval char_eval)

theorem parseVoiceInput_first_amount_witness:
  "parseVoiceInput \<lparr>new_Date = 1700000000000, Date_now = 1700000000007, timeZone = makeZone (- 18000000) (- 18000000) 0\<rparr>
      (JStr ''Hello there'') = None
   \<and> (\<exists>r. parseVoiceInput \<lparr>new_Date = 1700000000000, Date_now = 1700000000007, timeZone = makeZone (- 18000000) (- 18000000) 0\<rparr>
      (JStr ''Coffee 7 bucks $5'') = Some r \<and> amount r = Fin 5)
   \<and> (\<exists>r. parseVoiceInput \<lparr>new_Date = 1700000000000, Date_now = 1700000000007, timeZone = makeZone (- 18000000) (- 18000000) 0\<rparr>
      (JStr (''Spent'' @ [CHR 0xA0] @ ''5'')) = Some r \<and> amount r = Fin 5)"
proof -
  let ?env = "\<lparr>new_Date = 1700000000000, Date_now = 1700000000007, timeZone = makeZone (- 18000000) (- 18000000) 0\<rparr>"
  let ?n = "''coffee 7 bucks $5''"
  note hello = parseVoiceInput_first_amount [of ?env "''Hello there''" "amountPatterns ! 1" ?n, unfolded eval_hello_norm]
  note bucks = parseVoiceInput_first_amount [of ?env "''Coffee 7 bucks $5''" "amountPatterns ! 1" ?n, unfolded eval_bucks_norm]
  have 1: "parseVoiceInput ?env (JStr ''Hello there'') = None"
    using hello [THEN conjunct1] eval_hello_none by simp
  have 2: "\<exists>r. parseVoiceInput ?env (JStr ''Coffee 7 bucks $5'') = Some r \<and> amount r = Fin 5"
  proof -
    have "length amountPatterns = 4" by (simp add: amountPatterns_def)
    then have mem: "amountPatterns ! 1 \<in> set amountPatterns" by simp
    have "parseVoiceInput ?env (JStr ''Coffee 7 bucks $5'') \<noteq> None"
    proof
      assume "parseVoiceInput ?env (JStr ''Coffee 7 bucks $5'') = None"
      with bucks [THEN conjunct1] have "\<forall>p\<in>set amountPatterns. tryPattern p ?n = None"
        by simp
      then have "tryPattern (amountPatterns ! 1) ?n = None" using mem by (rule bspec)
      with eval_bucks_tries(2) show False by simp
    qed
    then obtain r where r: "parseVoiceInput ?env (JStr ''Coffee 7 bucks $5'') = Some r"
      by blast
    from bucks [THEN conjunct2, THEN conjunct2, rule_format, OF r] obtain i where
      i: "i < length amountPatterns"
        "tryPattern (amountPatterns ! i) ?n = Some (amount r)"
        "\<forall>j<i. tryPattern (amountPatterns ! j) ?n = None"
      by blast
    have "i = 1"
    proof (rule ccontr)
      assume "i \<noteq> 1"
      then consider "i = 0" | "1 < i" by arith
      then show False
      proof cases
        case 1
        with i(2) eval_bucks_tries(1) show False by simp
      next
        case 2
        with i(3) have "tryPattern (amountPatterns ! 1) ?n = None" by simp
        with eval_bucks_tries(2) show False by simp
      qed
    qed
    with i(2) eval_bucks_tries(2) have "amount r = Fin 5" by simp
    with r show ?thesis by blast
  qed
  have 3: "\<exists>r. parseVoiceInput ?env (JStr (''Spent'' @ [CHR 0xA0] @ ''5'')) = Some r
      \<and> amount r = Fin 5"
    unfolding parse_Some_iff eval_nbsp_norm eval_nbsp_amount by simp
  show ?thesis by (rule conjI [OF 1 conjI [OF 2 3]])
qed

subsection \<open>A digit string that overflows\<close>

lemma oneChar_chars:
  "st' \<in> set (oneChar P st) \<Longrightarrow> set (fst (snd st')) \<subseteq> set (fst (snd st))"
  by (cases "(P, st)" rule: oneChar.cases) (auto split: if_splits)

lemma matches_chars:
  "st' \<in> set (matches i r st) \<Longrightarrow> set (fst (snd st')) \<subseteq> set (fst (snd st))"
proof (induction i r st arbitrary: st' rule: matches.induct)
  case (1 i st)
  then show ?case by simp
next
  case (2 i c st)
  then show ?case by (simp add: oneChar_chars)
next
  case (3 i st)
  then show ?case by (simp add: oneChar_chars)
next
  case (4 i st)
  then show ?case by (simp add: oneChar_chars)
next
  case (5 i b s cap)
  then show ?case by (simp split: if_splits)
next
  case (6 i b s cap)
  then show ?case by (simp split: if_splits)
next
  case (7 i r1 r2 st)
  from "7.prems" obtain st1 where st1: "st1 \<in> set (matches i r1 st)"
    and st': "st' \<in> set (matches i r2 st1)" by auto
  from "7.IH"(1) [OF st1] "7.IH"(2) [OF st1 st'] show ?case by blast
next
  case (8 i r1 r2 st)
  from "8.prems" have "st' \<in> set (matches i r1 st) \<or> st' \<in> set (matches i r2 st)"
    by simp
  then show ?case
    using "8.IH"(1) [of st'] "8.IH"(2) [of st'] by blast
next
  case (9 i r st)
  have eq: "matches i (Star r) st =
      concat (map (\<lambda>st'. if remaining st' < remaining st then matches i (Star r) st' else [])
                  (matches i r st)) @ [st]"
    by (rule matches.simps)
  from "9.prems" have "st' \<in> set (concat (map (\<lambda>st'. if remaining st' < remaining st
      then matches i (Star r) st' else []) (matches i r st)) @ [st])"
    by (simp only: eq)
  then consider "st' = st"
    | st1 where "st1 \<in> set (matches i r st)" "remaining st1 < remaining st"
        "st' \<in> set (matches i (Star r) st1)"
    by (auto simp del: matches.simps split: if_splits)
  then show ?case
  proof cases
    case 1
    then show ?thesis by simp
  next
    case 2
    from "9.IH"(1) [OF 2(1)] "9.IH"(2) [OF 2(1) 2(2) 2(3)] show ?thesis by blast
  qed
next
  case (10 i r b s cap)
  from "10.prems" obtain b' s' cap' where
    "(b', s', cap') \<in> set (matches i r (b, s, cap))" "fst (snd st') = s'"
    by auto
  with "10.IH" [of "(b', s', cap')"] show ?case by simp
qed


lemma plain_char:
  assumes "isDigit x \<or> x = CHR ''$''"
  shows "\<not> isSpace x" and "toLowerChar x = x" and "canonicalize x = of_char x"
    and "(of_char x :: nat) \<le> 57"
  using assms by (auto simp: char_eval Let_def)

lemma plain_no_letter:
  assumes "isDigit x \<or> x = CHR ''$''" and "58 \<le> canonicalize c"
  shows "\<not> litMatches True c x"
proof
  assume "litMatches True c x"
  then have "canonicalize c = of_char x"
    using plain_char(3) [OF assms(1)] by (simp add: litMatches_def)
  with assms(2) plain_char(4) [OF assms(1)] show False by simp
qed

lemma letters_upper:
  "58 \<le> canonicalize CHR ''s''"
  "58 \<le> canonicalize CHR ''p''"
  "58 \<le> canonicalize CHR ''c''"
  "58 \<le> canonicalize CHR ''w''"
  "58 \<le> canonicalize CHR ''f''"
  "58 \<le> canonicalize CHR ''d''"
  "58 \<le> canonicalize CHR ''b''"
  by (simp_all add: char_eval)

lemma verb_pattern_plain:
  assumes "\<forall>c\<in>set s. isDigit c \<or> c = CHR ''$''"
  shows "matches True (source (amountPatterns ! 0)) (b, s, None) = []"
    and "matches True (source (amountPatterns ! 3)) (b, s, None) = []"
proof -
  show "matches True (source (amountPatterns ! 0)) (b, s, None) = []"
  proof (cases s)
    case Nil
    then show ?thesis by (simp add: amountPatterns_def regex_eval)
  next
    case (Cons x xs)
    with assms have "isDigit x \<or> x = CHR ''$''" by simp
    note no = plain_no_letter [OF this]
    show ?thesis
      by (simp add: Cons amountPatterns_def oneOf_def no letters_upper)
  qed
  show "matches True (source (amountPatterns ! 3)) (b, s, None) = []"
  proof (cases s)
    case Nil
    then show ?thesis by (simp add: amountPatterns_def regex_eval)
  next
    case (Cons x xs)
    with assms have "isDigit x \<or> x = CHR ''$''" by simp
    note no = plain_no_letter [OF this]
    show ?thesis
      by (simp add: Cons amountPatterns_def oneOf_def no letters_upper)
  qed
qed

lemma currency_plain:
  assumes "\<forall>c\<in>set s. isDigit c \<or> c = CHR ''$''"
  shows "matches True (alts currencyWords) (b, s, cap) = []"
proof (cases s)
  case Nil
  then show ?thesis by (simp add: currencyWords_def)
next
  case (Cons x xs)
  with assms have "isDigit x \<or> x = CHR ''$''" by simp
  note no = plain_no_letter [OF this]
  show ?thesis
    by (simp add: Cons currencyWords_def no letters_upper)
qed

lemma unit_pattern_plain:
  assumes "\<forall>c\<in>set s. isDigit c \<or> c = CHR ''$''"
  shows "matches True (source (amountPatterns ! 2)) (b, s, None) = []"
proof -
  have src: "source (amountPatterns ! 2)
      = Seq (Group number) (Seq (Star Space) (alts currencyWords))"
    by (simp add: amountPatterns_def)
  have "matches True (alts currencyWords) st2 = []"
    if st1: "st1 \<in> set (matches True (Group number) (b, s, None))"
      and st2: "st2 \<in> set (matches True (Star Space) st1)" for st1 st2
  proof -
    from matches_chars [OF st1] matches_chars [OF st2]
    have "set (fst (snd st2)) \<subseteq> set s" by auto
    with assms have "\<forall>c\<in>set (fst (snd st2)). isDigit c \<or> c = CHR ''$''" by blast
    from currency_plain [OF this, of "fst st2" "snd (snd st2)"] show ?thesis by simp
  qed
  then show ?thesis
    unfolding src by (simp del: matches.simps(9,10))
qed


lemma exec_from_none:
  assumes "\<And>b s'. set s' \<subseteq> set s \<Longrightarrow> matches (ignoreCase p) (source p) (b, s', None) = []"
  shows "exec_from p b pre s = None"
  using assms
proof (induction s arbitrary: b pre)
  case Nil
  then show ?case by simp
next
  case (Cons x xs)
  have "matches (ignoreCase p) (source p) (b, x # xs, None) = []"
    by (rule Cons.prems) simp
  moreover have "exec_from p False (pre @ [x]) xs = None"
    by (rule Cons.IH) (rule Cons.prems, auto)
  ultimately show ?case by simp
qed

lemma tryPattern_plain:
  assumes "\<forall>c\<in>set s. isDigit c \<or> c = CHR ''$''"
  shows "tryPattern (amountPatterns ! 0) s = None"
    and "tryPattern (amountPatterns ! 2) s = None"
    and "tryPattern (amountPatterns ! 3) s = None"
proof -
  have ic: "ignoreCase (amountPatterns ! 0)" "ignoreCase (amountPatterns ! 2)"
    "ignoreCase (amountPatterns ! 3)"
    by (simp_all add: amountPatterns_def)
  have plain: "\<forall>c\<in>set s'. isDigit c \<or> c = CHR ''$''" if "set s' \<subseteq> set s" for s'
    using that assms by blast
  have "exec (amountPatterns ! 0) s = None"
    unfolding exec_def
    by (rule exec_from_none) (simp add: ic verb_pattern_plain(1) [OF plain])
  then show "tryPattern (amountPatterns ! 0) s = None"
    by (simp add: tryPattern_def match1_def)
  have "exec (amountPatterns ! 2) s = None"
    unfolding exec_def
    by (rule exec_from_none) (simp add: ic unit_pattern_plain [OF plain])
  then show "tryPattern (amountPatterns ! 2) s = None"
    by (simp add: tryPattern_def match1_def)
  have "exec (amountPatterns ! 3) s = None"
    unfolding exec_def
    by (rule exec_from_none) (simp add: ic verb_pattern_plain(2) [OF plain])
  then show "tryPattern (amountPatterns ! 3) s = None"
    by (simp add: tryPattern_def match1_def)
qed

lemma star_digit_head:
  "\<forall>c\<in>set zs. isDigit c \<Longrightarrow>
   \<exists>tl. matches i (Star Digit) (False, zs, cap) = (False, [], cap) # tl"
proof (induction zs)
  case Nil
  then show ?case by simp
next
  case (Cons z zs)
  then obtain tl where "matches i (Star Digit) (False, zs, cap) = (False, [], cap) # tl"
    by auto
  moreover have "isDigit z" using Cons.prems by simp
  ultimately show ?case
    by (subst matches.simps) (simp del: matches.simps(9))
qed

lemma number_head:
  assumes "zs \<noteq> []" and "\<forall>c\<in>set zs. isDigit c"
  shows "\<exists>tl. matches i number (False, zs, cap) = (False, [], cap) # tl"
proof -
  from assms obtain z zs' where zs: "zs = z # zs'" "isDigit z" "\<forall>c\<in>set zs'. isDigit c"
    by (cases zs) auto
  from star_digit_head [OF zs(3), of i cap] obtain tl where
    "matches i (Star Digit) (False, zs', cap) = (False, [], cap) # tl" by blast
  then show ?thesis
    by (simp add: number_def Plus_def Opt_def zs del: matches.simps(9))
qed

lemma dollar_pattern_digits:
  assumes "zs \<noteq> []" and "\<forall>c\<in>set zs. isDigit c"
  shows "match1 (amountPatterns ! 1) (CHR ''$'' # zs) = Some (Some zs)"
proof -
  from number_head [OF assms, of False None] obtain tl where
    "matches False number (False, zs, None) = (False, [], None) # tl" by blast
  then show ?thesis
    by (simp add: match1_def exec_def amountPatterns_def litMatches_def del: matches.simps(9))
qed

lemma digitsValue_zeros: "digitsValue a (replicate n CHR ''0'') = a * 10 ^ n"
  by (induction n arbitrary: a) (simp_all add: digitValue_def)

lemma takeWhile_all: "\<forall>c\<in>set zs. P c \<Longrightarrow> takeWhile P zs = zs \<and> dropWhile P zs = []"
  by (induction zs) auto

lemma parseFloat_digits:
  assumes "zs \<noteq> []" and "\<forall>c\<in>set zs. isDigit c"
  shows "parseFloat (Some zs) = toNumber (of_nat (digitsValue 0 zs))"
proof -
  from takeWhile_all [OF assms(2)] have t: "takeWhile isDigit zs = zs"
    and d: "dropWhile isDigit zs = []" by blast+
  show ?thesis
    unfolding parseFloat_def Let_def option.case t d using assms(1) by simp
qed


lemma trim_plain:
  assumes "s \<noteq> []" and "\<not> isSpace (hd s)" and "\<not> isSpace (last s)"
  shows "trim s = s"
proof -
  from assms(1,2) have 1: "dropWhile isSpace s = s" by (cases s) auto
  from assms(1) obtain ys y where s: "s = ys @ [y]"
    by (cases s rule: rev_cases) auto
  with assms(3) have 2: "dropWhile isSpace (rev s) = rev s" by simp
  show ?thesis by (simp add: trim_def 1 2)
qed

lemma big_normalized:
  "trim (toLowerCase (CHR ''$'' # CHR ''2'' # replicate 308 CHR ''0''))
     = CHR ''$'' # CHR ''2'' # replicate 308 CHR ''0''"
proof -
  let ?s = "CHR ''$'' # CHR ''2'' # replicate 308 CHR ''0''"
  have plain: "\<forall>c\<in>set ?s. isDigit c \<or> c = CHR ''$''"
    by (auto simp: isDigit_def)
  then have "map toLowerChar ?s = ?s"
    by (intro map_idI) (use plain_char(2) in blast)
  moreover have "trim ?s = ?s"
    by (rule trim_plain) (simp_all add: isSpace_def)
  ultimately show ?thesis
    by (simp add: toLowerCase_def)
qed

lemma big_overflows:
  "parseFloat (Some (CHR ''2'' # replicate 308 CHR ''0'')) = PosInf"
proof -
  let ?zs = "CHR ''2'' # replicate 308 CHR ''0''"
  have digits: "\<forall>c\<in>set ?zs. isDigit c" by (auto simp: isDigit_def)
  have "digitsValue 0 ?zs = 2 * 10 ^ 308"
    by (simp add: digitsValue_zeros digitValue_def)
  with parseFloat_digits [OF _ digits] have "parseFloat (Some ?zs) = toNumber (of_nat (2 * 10 ^ 308))"
    by simp
  moreover have "(2 :: rat) ^ 1024 - 2 ^ 970 \<le> of_nat (2 * 10 ^ 308)"
    by simp
  ultimately show ?thesis by (simp add: toNumber_def)
qed

text \<open>
  Claim C3, as stated, fails on a digit string that overflows a double: on a dollar sign
  followed by 2 and 308 zeros the second pattern gives \<^verbatim>\<open>Infinity\<close> and the three
  others do not match, so no pattern gives a positive finite number, and yet the parser
  returns a result, with the amount \<^verbatim>\<open>Infinity\<close>.
\<close>

theorem parseVoiceInput_infinite_amount_counterexample:
  "length amountPatterns = 4
   \<and> trim (toLowerCase (CHR ''$'' # CHR ''2'' # replicate 308 CHR ''0''))
       = CHR ''$'' # CHR ''2'' # replicate 308 CHR ''0''
   \<and> tryPattern (amountPatterns ! 0) (CHR ''$'' # CHR ''2'' # replicate 308 CHR ''0'') = None
   \<and> tryPattern (amountPatterns ! 1) (CHR ''$'' # CHR ''2'' # replicate 308 CHR ''0'') = Some PosInf
   \<and> tryPattern (amountPatterns ! 2) (CHR ''$'' # CHR ''2'' # replicate 308 CHR ''0'') = None
   \<and> tryPattern (amountPatterns ! 3) (CHR ''$'' # CHR ''2'' # replicate 308 CHR ''0'') = None
   \<and> (\<exists>r. parseVoiceInput \<lparr>new_Date = 1700000000000, Date_now = 1700000000007,
                              timeZone = makeZone (- 18000000) (- 18000000) 0\<rparr>
               (JStr (CHR ''$'' # CHR ''2'' # replicate 308 CHR ''0'')) = Some r
          \<and> amount r = PosInf)"
proof -
  let ?zs = "CHR ''2'' # replicate 308 CHR ''0''"
  let ?s = "CHR ''$'' # ?zs"
  have plain: "\<forall>c\<in>set ?s. isDigit c \<or> c = CHR ''$''"
    by (auto simp: isDigit_def)
  have digits: "\<forall>c\<in>set ?zs. isDigit c" by (auto simp: isDigit_def)
  have len: "length amountPatterns = 4" by (simp add: amountPatterns_def)
  note t = tryPattern_plain [OF plain]
  have "match1 (amountPatterns ! 1) ?s = Some (Some ?zs)"
    by (rule dollar_pattern_digits [OF _ digits]) simp
  then have t1: "tryPattern (amountPatterns ! 1) ?s = Some PosInf"
    by (simp add: tryPattern_def big_overflows)
  have "amountPatterns = [amountPatterns ! 0, amountPatterns ! 1, amountPatterns ! 2,
      amountPatterns ! 3]"
    by (simp add: amountPatterns_def)
  then have "findAmount amountPatterns ?s
      = findAmount [amountPatterns ! 0, amountPatterns ! 1, amountPatterns ! 2,
          amountPatterns ! 3] ?s"
    by simp
  also have "\<dots> = Some PosInf"
    using t(1) t1 by simp
  finally have "findAmount amountPatterns ?s = Some PosInf" .
  then have "\<exists>r. parseVoiceInput \<lparr>new_Date = 1700000000000, Date_now = 1700000000007,
                              timeZone = makeZone (- 18000000) (- 18000000) 0\<rparr> (JStr ?s) = Some r
          \<and> amount r = PosInf"
    by (simp add: parse_Some_iff big_normalized)
  with len big_normalized t t1 show ?thesis by (intro conjI)
qed

end
